theory Spec2Isabelle
  imports Complex_Main "HOL-Library.List_Lexorder" "HOL-Library.Char_ord"
begin

section \<open>Numbers, vectors and extents\<close>

text \<open>
  The radar scope of \<^verbatim>\<open>radarscope.go\<close> computes with \<^verbatim>\<open>float32\<close> window coordinates.
  They are modelled as real numbers: every sum, difference and product is exact, and there
  is no NaN and no infinity. Wall-clock instants (\<^verbatim>\<open>time.Time\<close>) and durations are integers
  counting nanoseconds. An \<^verbatim>\<open>*Aircraft\<close> pointer is a natural number standing for its identity.
\<close>

type_synonym vec = "real \<times> real"
type_synonym acid = nat

text \<open>
  Modelled from the spec: the vector helpers \<^verbatim>\<open>add2f\<close>, \<^verbatim>\<open>sub2f\<close>, \<^verbatim>\<open>scale2f\<close>, \<^verbatim>\<open>length2f\<close>,
  \<^verbatim>\<open>normalize2f\<close> and the \<^verbatim>\<open>Extent2D\<close> methods \<^verbatim>\<open>Offset\<close>, \<^verbatim>\<open>Expand\<close>, \<^verbatim>\<open>Center\<close> are
  declared in another file of the repository. They follow their names and the words of the
  specification: component-wise sum and difference, scaling, the magnitude of a vector, the
  unit vector of a direction, a box translated by a vector, a box expanded by a padding on
  every side, the midpoint of a box.
\<close>

definition add2f :: "vec \<Rightarrow> vec \<Rightarrow> vec" where
  "add2f a b = (fst a + fst b, snd a + snd b)"

definition sub2f :: "vec \<Rightarrow> vec \<Rightarrow> vec" where
  "sub2f a b = (fst a - fst b, snd a - snd b)"

definition scale2f :: "vec \<Rightarrow> real \<Rightarrow> vec" where
  "scale2f a s = (s * fst a, s * snd a)"

definition length2f :: "vec \<Rightarrow> real" where
  "length2f v = sqrt (fst v * fst v + snd v * snd v)"

definition normalize2f :: "vec \<Rightarrow> vec" where
  "normalize2f v = (if length2f v = 0 then (0, 0) else scale2f v (1 / length2f v))"

record Extent2D =
  p0 :: vec
  p1 :: vec

definition Offset :: "Extent2D \<Rightarrow> vec \<Rightarrow> Extent2D" where
  "Offset e p = \<lparr>p0 = add2f (p0 e) p, p1 = add2f (p1 e) p\<rparr>"

definition Expand :: "Extent2D \<Rightarrow> real \<Rightarrow> Extent2D" where
  "Expand e d = \<lparr>p0 = (fst (p0 e) - d, snd (p0 e) - d), p1 = (fst (p1 e) + d, snd (p1 e) + d)\<rparr>"

definition Center :: "Extent2D \<Rightarrow> vec" where
  "Center e = ((fst (p0 e) + fst (p1 e)) / 2, (snd (p0 e) + snd (p1 e)) / 2)"

text \<open>
  Modelled from the spec: \<^verbatim>\<open>Overlaps\<close> is declared in another file of the repository. The
  layout functions below take the overlap test as a parameter, so what is proved of them
  holds of every overlap test; this closed-rectangle test is used where a concrete run is
  evaluated.
\<close>

definition Overlaps :: "Extent2D \<Rightarrow> Extent2D \<Rightarrow> bool" where
  "Overlaps a b \<longleftrightarrow>
     (fst (p1 a) \<ge> fst (p0 b) \<and> fst (p0 a) \<le> fst (p1 b)) \<and>
     (snd (p1 a) \<ge> snd (p0 b) \<and> snd (p0 a) \<le> snd (p1 b))"

section \<open>Aircraft, scope state and the pane\<close>

text \<open>
  The fields of \<^verbatim>\<open>Aircraft\<close> that the scope reads through its methods: \<^verbatim>\<open>Callsign()\<close>,
  \<^verbatim>\<open>Heading()\<close>, \<^verbatim>\<open>Position()\<close>, \<^verbatim>\<open>Altitude()\<close>, \<^verbatim>\<open>LostTrack(now)\<close> at the frame's time, and
  \<^verbatim>\<open>flightPlan.arrive\<close>.
\<close>

record Aircraft =
  Callsign :: string
  Heading :: real
  Position :: vec
  Altitude :: int
  LostTrack :: bool
  arrive :: string

record AircraftScopeState =
  isGhost :: bool
  datablockAutomaticOffset :: vec
  datablockManualOffset :: vec
  datablockText :: "string \<times> string"
  datablockTextCurrent :: bool
  datablockBounds :: Extent2D

text \<open>The zero value \<^verbatim>\<open>AircraftScopeState{}\<close> of Go.\<close>

definition zeroScopeState :: AircraftScopeState where
  "zeroScopeState = \<lparr>isGhost = False, datablockAutomaticOffset = (0, 0),
     datablockManualOffset = (0, 0), datablockText = ('''', ''''),
     datablockTextCurrent = False,
     datablockBounds = \<lparr>p0 = (0, 0), p1 = (0, 0)\<rparr>\<rparr>"

text \<open>
  The fields of \<^verbatim>\<open>RadarScopePane\<close> read or written by the functions modelled here. The maps
  \<^verbatim>\<open>aircraft\<close> and \<^verbatim>\<open>rangeWarnings\<close> are keyed by pointers; \<^verbatim>\<open>rangeWarnings\<close> only ever maps a
  key to \<^verbatim>\<open>nil\<close>, so it is the set of its keys. Every entry of \<^verbatim>\<open>aircraft\<close> is inserted with a
  freshly allocated state, so the map is modelled by value.
\<close>

record RadarScopePane =
  RotationAngle :: real
  AutomaticDatablockLayout :: bool
  MinAltitude :: int
  MaxAltitude :: int
  DrawRangeIndicators :: bool
  rangeWarnings :: "(acid \<times> acid) set"
  AutoMIT :: bool
  CRDAEnabled :: bool
  lastRangeNotificationPlayed :: int
  aircraft :: "acid \<rightharpoonup> AircraftScopeState"
  ghostAircraft :: "acid \<rightharpoonup> acid"

section \<open>Range indicators and the conflict alert\<close>

text \<open>
  \<^verbatim>\<open>GetConflicts\<close> is declared in another file; its two result lists are parameters. Each
  entry carries the pair of aircraft it is about (\<^verbatim>\<open>aircraft [2]*Aircraft\<close>); the limits it
  also carries are only drawn.
\<close>

datatype AudioEvent = AudioEventConflictAlert

definition Second :: int where
  "Second = 1000000000"

definition addRangeWarnings :: "(acid \<times> acid) list \<Rightarrow> (acid \<times> acid) set \<Rightarrow> (acid \<times> acid) set" where
  "addRangeWarnings ws m = fold (\<lambda>w m. insert (snd w, fst w) (insert (fst w, snd w) m)) ws m"

text \<open>
  \<^verbatim>\<open>drawRangeIndicators\<close> up to the audio alert; the drawing that follows changes no field of
  the pane. The clock is read twice, by \<^verbatim>\<open>time.Since\<close> (\<open>tSince\<close>) and by \<^verbatim>\<open>time.Now\<close> (\<open>tNow\<close>).
  The result is the pane and the audio events handed to the audio settings.
\<close>

definition drawRangeIndicators ::
  "RadarScopePane \<Rightarrow> (acid \<times> acid) list \<Rightarrow> (acid \<times> acid) list \<Rightarrow> int \<Rightarrow> int \<Rightarrow>
     RadarScopePane \<times> AudioEvent list" where
  "drawRangeIndicators rs warnings violations tSince tNow =
     (if \<not> DrawRangeIndicators rs then (rs, [])
      else
        let rs1 = rs\<lparr>rangeWarnings := addRangeWarnings violations (addRangeWarnings warnings {})\<rparr>
        in if length violations > 0 \<and> tSince - lastRangeNotificationPlayed rs1 > 3 * Second
           then (rs1\<lparr>lastRangeNotificationPlayed := tNow\<rparr>, [AudioEventConflictAlert])
           else (rs1, []))"

text \<open>
  A run of frames: each frame gives the violations found and the time of the frame (both
  clock reads of the frame return it); the warnings play no part in the alert.
\<close>

fun alertFrames :: "RadarScopePane \<Rightarrow> ((acid \<times> acid) list \<times> int) list \<Rightarrow> AudioEvent list" where
  "alertFrames rs [] = []"
| "alertFrames rs ((violations, t) # fs) =
     (let (rs', evs) = drawRangeIndicators rs [] violations t t in evs @ alertFrames rs' fs)"

section \<open>Choosing the connection point of a datablock\<close>

definition datablockConnectP :: "Extent2D \<Rightarrow> real \<Rightarrow> vec \<times> bool" where
  "datablockConnectP bbox heading0 =
     (let center = Center bbox;
          h1 = heading0 + 15;
          h2 = (if h1 < 0 then h1 + 360 else h1);
          heading = (if h2 > 360 then h2 - 360 else h2)
      in if heading < 30 then ((fst (p0 bbox), snd center), False)
         else if heading < 90 then ((fst (p0 bbox), snd (p1 bbox)), True)
         else if heading < 120 then ((fst center, snd (p1 bbox)), False)
         else if heading < 180 then ((fst (p0 bbox), snd (p0 bbox)), True)
         else if heading < 210 then ((fst (p0 bbox), snd center), False)
         else if heading < 270 then ((fst (p0 bbox), snd (p1 bbox)), True)
         else if heading < 300 then ((fst center, snd (p0 bbox)), False)
         else ((fst (p0 bbox), snd (p0 bbox)), True))"

definition offsetSelfOnly :: "RadarScopePane \<Rightarrow> Aircraft \<Rightarrow> AircraftScopeState \<Rightarrow> vec" where
  "offsetSelfOnly rs ac info =
     (let bbox = Expand (datablockBounds info) 5;
          heading = Heading ac + RotationAngle rs;
          (pConnect, isCorner) = datablockConnectP bbox heading;
          v = scale2f pConnect (-1)
      in if \<not> isCorner then add2f v (scale2f (normalize2f v) 3) else v)"

text \<open>
  The anchors of a box in window coordinates, where the second coordinate grows upwards
  (text is drawn from the upper left corner \<^verbatim>\<open>(p0[0], p1[1])\<close> of the bounds).
\<close>

datatype Anchor = LeftEdgeMid | TopLeftCorner | TopEdgeMid | BottomLeftCorner | BottomEdgeMid

fun anchorPoint :: "Extent2D \<Rightarrow> Anchor \<Rightarrow> vec" where
  "anchorPoint b LeftEdgeMid = (fst (p0 b), snd (Center b))"
| "anchorPoint b TopLeftCorner = (fst (p0 b), snd (p1 b))"
| "anchorPoint b TopEdgeMid = (fst (Center b), snd (p1 b))"
| "anchorPoint b BottomLeftCorner = (fst (p0 b), snd (p0 b))"
| "anchorPoint b BottomEdgeMid = (fst (Center b), snd (p0 b))"

fun isCornerAnchor :: "Anchor \<Rightarrow> bool" where
  "isCornerAnchor TopLeftCorner = True"
| "isCornerAnchor BottomLeftCorner = True"
| "isCornerAnchor _ = False"

text \<open>The wrapped heading of the anchor policy.\<close>

definition wrapHeading :: "real \<Rightarrow> real" where
  "wrapHeading a = (if a + 15 < 0 then a + 15 + 360 else if a + 15 > 360 then a + 15 - 360 else a + 15)"

text \<open>
  The sector table as the specification words it: eight sectors of widths
  30/60/30/90/30/60/30/60 degrees, so with upper ends 30, 90, 120, 210, 240, 300, 330, 390,
  and its anchors in order.
\<close>

definition specSectorAnchor :: "real \<Rightarrow> Anchor" where
  "specSectorAnchor h =
     (if h < 30 then LeftEdgeMid
      else if h < 90 then BottomLeftCorner
      else if h < 120 then BottomEdgeMid
      else if h < 210 then BottomLeftCorner
      else if h < 240 then LeftEdgeMid
      else if h < 300 then BottomLeftCorner
      else if h < 330 then BottomEdgeMid
      else BottomLeftCorner)"

text \<open>The sector table of the code: widths 30/60/30/60/30/60/30/60 degrees.\<close>

definition sectorAnchor :: "real \<Rightarrow> Anchor" where
  "sectorAnchor h =
     (if h < 30 then LeftEdgeMid
      else if h < 90 then TopLeftCorner
      else if h < 120 then TopEdgeMid
      else if h < 180 then BottomLeftCorner
      else if h < 210 then LeftEdgeMid
      else if h < 270 then TopLeftCorner
      else if h < 300 then BottomEdgeMid
      else BottomLeftCorner)"

section \<open>Miles-in-trail lines\<close>

text \<open>
  The navigation helpers that \<^verbatim>\<open>drawMIT\<close> calls are declared in other files; they are taken
  as parameters: \<^verbatim>\<open>nmdistance2ll\<close>, \<^verbatim>\<open>headingp2ll\<close> (with the magnetic variation of the
  database), \<^verbatim>\<open>headingDifference\<close> and \<^verbatim>\<open>EstimatedFutureDistance\<close>.
\<close>

record Navigation =
  nmdistance2ll :: "vec \<Rightarrow> vec \<Rightarrow> real"
  headingp2ll :: "vec \<Rightarrow> vec \<Rightarrow> real"
  headingDifference :: "real \<Rightarrow> real \<Rightarrow> real"
  EstimatedFutureDistance :: "Aircraft \<Rightarrow> Aircraft \<Rightarrow> real \<Rightarrow> real"

datatype LineColor = Safe | Caution | Error

text \<open>One call of \<^verbatim>\<open>annotatedLine\<close>: the two aircraft joined, the two distances of the text, the colour.\<close>

record MITLine =
  lineFrom :: acid
  lineTo :: acid
  lineDist :: real
  lineEst :: real
  lineColor :: LineColor

definition inTrail :: "Navigation \<Rightarrow> Aircraft \<Rightarrow> Aircraft \<Rightarrow> bool" where
  "inTrail nav front back =
     (let dalt = Altitude back - Altitude front;
          backHeading = Heading back;
          angle = headingp2ll nav (Position back) (Position front);
          diff = headingDifference nav backHeading angle
      in diff < 150 \<and> dalt < 3000)"

text \<open>The local variables of the search of one trailing aircraft.\<close>

record MITSearch =
  closest :: "acid option"
  minDist :: real
  estDist :: real

definition mitSearchStep ::
  "Navigation \<Rightarrow> (acid \<Rightarrow> Aircraft) \<Rightarrow> acid list \<Rightarrow> nat \<Rightarrow> nat \<Rightarrow> MITSearch \<Rightarrow> MITSearch" where
  "mitSearchStep nav world arr i j st =
     (let ac = world (arr ! i);
          ac2 = world (arr ! j);
          dist = nmdistance2ll nav (Position ac) (Position ac2)
      in if i = j \<or> arrive ac2 \<noteq> arrive ac then st
         else if dist < minDist st \<and> inTrail nav (world (arr ! i)) (world (arr ! j))
           then st\<lparr>minDist := dist, estDist := EstimatedFutureDistance nav ac2 ac 30,
                   closest := Some (arr ! j)\<rparr>
           else st)"

definition mitSearch ::
  "Navigation \<Rightarrow> (acid \<Rightarrow> Aircraft) \<Rightarrow> acid list \<Rightarrow> nat \<Rightarrow> MITSearch" where
  "mitSearch nav world arr i =
     fold (mitSearchStep nav world arr i) [0..<length arr]
       \<lparr>closest = None, minDist = 20, estDist = 0\<rparr>"

definition distColor :: "real \<Rightarrow> LineColor" where
  "distColor d = (if d > 5 then Safe else if d > 3 then Caution else Error)"

definition autoMITLine ::
  "RadarScopePane \<Rightarrow> Navigation \<Rightarrow> (acid \<Rightarrow> Aircraft) \<Rightarrow> acid list \<Rightarrow> nat \<Rightarrow> MITLine list" where
  "autoMITLine rs nav world arr i =
     (let st = mitSearch nav world arr i
      in case closest st of
           None \<Rightarrow> []
         | Some c \<Rightarrow>
             if (arr ! i, c) \<in> rangeWarnings rs then []
             else [\<lparr>lineFrom = arr ! i, lineTo = c, lineDist = minDist st, lineEst = estDist st,
                    lineColor = distColor (minDist st)\<rparr>])"

definition explicitMITLine ::
  "RadarScopePane \<Rightarrow> Navigation \<Rightarrow> (acid \<Rightarrow> Aircraft) \<Rightarrow> acid list \<Rightarrow> nat \<Rightarrow> MITLine list" where
  "explicitMITLine rs nav world mit i =
     (let front = mit ! (i - 1); trailing = mit ! i
      in if (front, trailing) \<in> rangeWarnings rs then []
         else
           let dist = nmdistance2ll nav (Position (world front)) (Position (world trailing));
               est = EstimatedFutureDistance nav (world (mit ! (i - 1))) (world (mit ! i)) 30
           in [\<lparr>lineFrom = front, lineTo = trailing, lineDist = dist, lineEst = est,
                 lineColor = distColor dist\<rparr>])"

text \<open>
  \<^verbatim>\<open>drawMIT\<close>: \<open>arr\<close> is the result of \<^verbatim>\<open>getDistanceSortedArrivals\<close> (declared in another file),
  \<open>mit\<close> is the explicit sequence \<^verbatim>\<open>positionConfig.mit\<close>. The result lists the annotated lines
  in the order they are drawn.
\<close>

definition drawMIT ::
  "RadarScopePane \<Rightarrow> Navigation \<Rightarrow> (acid \<Rightarrow> Aircraft) \<Rightarrow> acid list \<Rightarrow> acid list \<Rightarrow> MITLine list" where
  "drawMIT rs nav world arr mit =
     (if AutoMIT rs \<and> length mit = 0
      then concat (map (autoMITLine rs nav world arr) [1..<length arr])
      else concat (map (explicitMITLine rs nav world mit) [1..<length mit]))"

text \<open>
  What the search loop of the code accepts at index \<open>j\<close> when it searches for the arrival
  at index \<open>i\<close>: the two tests of its body, written out. The call is
  \<^verbatim>\<open>inTrail(arr[i], arr[j])\<close> into the closure \<^verbatim>\<open>inTrail(front, back)\<close>, so the heading compared
  is that of the aircraft at \<open>j\<close>, the bearing is from \<open>j\<close> to \<open>i\<close>, and the altitude
  difference is that of \<open>j\<close> minus that of \<open>i\<close>.
\<close>

definition searchAccepts ::
  "Navigation \<Rightarrow> (acid \<Rightarrow> Aircraft) \<Rightarrow> acid list \<Rightarrow> nat \<Rightarrow> nat \<Rightarrow> bool" where
  "searchAccepts nav world arr i j \<longleftrightarrow>
     j < length arr \<and> j \<noteq> i \<and>
     arrive (world (arr ! j)) = arrive (world (arr ! i)) \<and>
     nmdistance2ll nav (Position (world (arr ! i))) (Position (world (arr ! j))) < 20 \<and>
     headingDifference nav (Heading (world (arr ! j)))
       (headingp2ll nav (Position (world (arr ! j))) (Position (world (arr ! i)))) < 150 \<and>
     Altitude (world (arr ! j)) - Altitude (world (arr ! i)) < 3000"

text \<open>
  The valid predecessor in the words of the specification. The arrival at index \<open>i\<close>, for
  which a predecessor is searched, is the trailing aircraft, and the candidate at index \<open>j\<close>
  the leading one: another arrival bound for the same destination, within 20 distance
  units, where the heading of the trailing aircraft differs by less than 150 degrees from
  the bearing from the trailing to the leading aircraft, and the altitudes differ by less
  than 3000.
\<close>

definition validPredecessor ::
  "Navigation \<Rightarrow> (acid \<Rightarrow> Aircraft) \<Rightarrow> acid list \<Rightarrow> nat \<Rightarrow> nat \<Rightarrow> bool" where
  "validPredecessor nav world arr i j \<longleftrightarrow>
     j < length arr \<and> j \<noteq> i \<and>
     arrive (world (arr ! j)) = arrive (world (arr ! i)) \<and>
     nmdistance2ll nav (Position (world (arr ! i))) (Position (world (arr ! j))) < 20 \<and>
     headingDifference nav (Heading (world (arr ! i)))
       (headingp2ll nav (Position (world (arr ! i))) (Position (world (arr ! j)))) < 150 \<and>
     \<bar>Altitude (world (arr ! i)) - Altitude (world (arr ! j))\<bar> < 3000"

section \<open>Applying aircraft events\<close>

text \<open>
  The events drained by \<^verbatim>\<open>processEvents\<close>. \<^verbatim>\<open>CRDAConfig.GetGhost\<close> is declared in another file;
  it is the parameter \<open>getGhost\<close>, which gives the ghost of an aircraft or nothing (\<^verbatim>\<open>nil\<close>).
  A point-out event only touches \<^verbatim>\<open>pointedOutAircraft\<close>, which is not modelled.
\<close>

datatype Event =
    AddedAircraftEvent acid
  | RemovedAircraftEvent acid
  | ModifiedAircraftEvent acid
  | PointOutEvent acid string

definition addGhost :: "(acid \<Rightarrow> acid option) \<Rightarrow> acid \<Rightarrow> RadarScopePane \<Rightarrow> RadarScopePane" where
  "addGhost getGhost ac rs =
     (if CRDAEnabled rs then
        (case getGhost ac of
           None \<Rightarrow> rs
         | Some ghost \<Rightarrow>
             rs\<lparr>ghostAircraft := (ghostAircraft rs)(ac \<mapsto> ghost),
                aircraft := (aircraft rs)(ghost \<mapsto> zeroScopeState\<lparr>isGhost := True\<rparr>)\<rparr>)
      else rs)"

fun processEvent :: "(acid \<Rightarrow> acid option) \<Rightarrow> Event \<Rightarrow> RadarScopePane \<Rightarrow> RadarScopePane" where
  "processEvent getGhost (AddedAircraftEvent ac) rs =
     addGhost getGhost ac (rs\<lparr>aircraft := (aircraft rs)(ac \<mapsto> zeroScopeState)\<rparr>)"
| "processEvent getGhost (RemovedAircraftEvent ac) rs =
     (let rs1 = (case ghostAircraft rs ac of
                   Some ghost \<Rightarrow> rs\<lparr>aircraft := (aircraft rs)(ghost := None)\<rparr>
                 | None \<Rightarrow> rs)
      in rs1\<lparr>aircraft := (aircraft rs1)(ac := None),
             ghostAircraft := (ghostAircraft rs1)(ac := None)\<rparr>)"
| "processEvent getGhost (ModifiedAircraftEvent ac) rs =
     (let rs1 = (if CRDAEnabled rs then
                   (case ghostAircraft rs ac of
                      Some oldGhost \<Rightarrow>
                        rs\<lparr>aircraft := (aircraft rs)(oldGhost := None),
                           ghostAircraft := (ghostAircraft rs)(ac := None)\<rparr>
                    | None \<Rightarrow> rs)
                 else rs);
          rs2 = (case aircraft rs1 ac of
                   None \<Rightarrow> rs1\<lparr>aircraft := (aircraft rs1)(ac \<mapsto> zeroScopeState)\<rparr>
                 | Some state \<Rightarrow>
                     rs1\<lparr>aircraft := (aircraft rs1)(ac \<mapsto> state\<lparr>datablockTextCurrent := False\<rparr>)\<rparr>)
      in addGhost getGhost ac rs2)"
| "processEvent getGhost (PointOutEvent ac controller) rs = rs"

definition processEvents :: "(acid \<Rightarrow> acid option) \<Rightarrow> Event list \<Rightarrow> RadarScopePane \<Rightarrow> RadarScopePane" where
  "processEvents getGhost es rs = fold (processEvent getGhost) es rs"

section \<open>Laying out the datablocks\<close>

definition hasManualOffset :: "AircraftScopeState \<Rightarrow> bool" where
  "hasManualOffset t \<longleftrightarrow> fst (datablockManualOffset t) \<noteq> 0 \<or> snd (datablockManualOffset t) \<noteq> 0"

definition WindowDatablockBounds :: "AircraftScopeState \<Rightarrow> vec \<Rightarrow> Extent2D" where
  "WindowDatablockBounds t p =
     (let db = Offset (datablockBounds t) p
      in if fst (datablockManualOffset t) \<noteq> 0 \<or> snd (datablockManualOffset t) \<noteq> 0
         then Offset db (datablockManualOffset t)
         else Offset db (datablockAutomaticOffset t))"

text \<open>
  What a frame gives to the layout besides the pane: the overlap test, the projection
  \<^verbatim>\<open>windowFromLatLongP\<close>, the aircraft behind each pointer, and the extent of the pane.
\<close>

record FrameContext =
  overlaps :: "Extent2D \<Rightarrow> Extent2D \<Rightarrow> bool"
  windowFromLatLongP :: "vec \<Rightarrow> vec"
  acOf :: "acid \<Rightarrow> Aircraft"
  paneWidth :: real
  paneHeight :: real

definition windowPos :: "FrameContext \<Rightarrow> acid \<Rightarrow> vec" where
  "windowPos ctx ac = windowFromLatLongP ctx (Position (acOf ctx ac))"

text \<open>The test that every per-aircraft loop starts with, negated: the aircraft is drawn.\<close>

definition visible :: "RadarScopePane \<Rightarrow> Aircraft \<Rightarrow> bool" where
  "visible rs ac \<longleftrightarrow>
     \<not> (LostTrack ac \<or> Altitude ac < MinAltitude rs \<or> Altitude ac > MaxAltitude rs)"

text \<open>
  \<^verbatim>\<open>rs.aircraft[ac]\<close> for an aircraft of the list built from the keys of the map, where the
  lookup cannot miss (for a pointer that is no key the model reads the zero state).
\<close>

definition stateOf :: "RadarScopePane \<Rightarrow> acid \<Rightarrow> AircraftScopeState" where
  "stateOf rs ac = (case aircraft rs ac of Some t \<Rightarrow> t | None \<Rightarrow> zeroScopeState)"

definition setAutomaticOffset :: "RadarScopePane \<Rightarrow> acid \<Rightarrow> vec \<Rightarrow> RadarScopePane" where
  "setAutomaticOffset rs ac v =
     rs\<lparr>aircraft := (aircraft rs)(ac \<mapsto> (stateOf rs ac)\<lparr>datablockAutomaticOffset := v\<rparr>)\<rparr>"

text \<open>
  A \<^verbatim>\<open>range\<close> over the map \<^verbatim>\<open>rs.aircraft\<close> visits its keys in an order that Go does not fix:
  \<open>keys\<close> lists the pointers in the order of the visit, and those that are keys are visited.
\<close>

definition rangeAircraft :: "RadarScopePane \<Rightarrow> acid list \<Rightarrow> acid list" where
  "rangeAircraft rs keys = filter (\<lambda>ac. aircraft rs ac \<noteq> None) keys"

definition selfOnlyStep :: "FrameContext \<Rightarrow> acid \<Rightarrow> RadarScopePane \<Rightarrow> RadarScopePane" where
  "selfOnlyStep ctx ac rs =
     (let state = stateOf rs ac
      in if \<not> visible rs (acOf ctx ac) then rs
         else if fst (datablockManualOffset state) \<noteq> 0 \<or> snd (datablockManualOffset state) \<noteq> 0
           then setAutomaticOffset rs ac (0, 0)
           else setAutomaticOffset rs ac (offsetSelfOnly rs (acOf ctx ac) state))"

text \<open>
  The local variables of the automatic layout: the pane, the slice \<^verbatim>\<open>datablockBounds\<close>
  (named \<open>placedBounds\<close> here, the record field \<open>datablockBounds\<close> being taken) and the slice
  \<^verbatim>\<open>placed\<close>.
\<close>

record LayoutState =
  pane :: RadarScopePane
  placedBounds :: "Extent2D list"
  placed :: "bool list"

definition onScreen :: "FrameContext \<Rightarrow> acid \<Rightarrow> bool" where
  "onScreen ctx ac \<longleftrightarrow>
     (let pw = windowPos ctx ac
      in fst pw > -100 \<and> fst pw < paneWidth ctx + 100 \<and> snd pw > -100 \<and> snd pw < paneHeight ctx + 100)"

text \<open>
  The aircraft laid out, sorted by callsign (\<^verbatim>\<open>sort.Slice\<close> does not fix the order of equal
  callsigns; the insertion sort here keeps them in the order of the visit).
\<close>

definition sortedAircraft :: "FrameContext \<Rightarrow> RadarScopePane \<Rightarrow> acid list \<Rightarrow> acid list" where
  "sortedAircraft ctx rs keys =
     sort_key (\<lambda>ac. Callsign (acOf ctx ac))
       (filter (\<lambda>ac. visible rs (acOf ctx ac) \<and> onScreen ctx ac) (rangeAircraft rs keys))"

text \<open>First pass: the aircraft with a manual offset.\<close>

definition pinStep :: "FrameContext \<Rightarrow> acid list \<Rightarrow> nat \<Rightarrow> LayoutState \<Rightarrow> LayoutState" where
  "pinStep ctx acs i L =
     (let state = stateOf (pane L) (acs ! i)
      in if fst (datablockManualOffset state) \<noteq> 0 \<or> snd (datablockManualOffset state) \<noteq> 0
         then
           let pw = windowPos ctx (acs ! i);
               b = Expand (WindowDatablockBounds state pw) 5
           in L\<lparr>placedBounds := (placedBounds L)[i := b], placed := (placed L)[i := True]\<rparr>
         else L)"

text \<open>Second pass: the aircraft whose ideal box overlaps no placed box.\<close>

definition allowedPlaced :: "FrameContext \<Rightarrow> LayoutState \<Rightarrow> Extent2D \<Rightarrow> bool" where
  "allowedPlaced ctx L b =
     list_all (\<lambda>i. \<not> (placed L ! i \<and> overlaps ctx b (placedBounds L ! i)))
       [0..<length (placedBounds L)]"

definition greedyStep :: "FrameContext \<Rightarrow> acid list \<Rightarrow> nat \<Rightarrow> LayoutState \<Rightarrow> LayoutState" where
  "greedyStep ctx acs i L =
     (if placed L ! i then L
      else
        let state = stateOf (pane L) (acs ! i);
            offset = offsetSelfOnly (pane L) (acOf ctx (acs ! i)) state;
            netOffset = sub2f offset (datablockAutomaticOffset state);
            pw = windowPos ctx (acs ! i);
            db = Offset (Expand (WindowDatablockBounds state pw) 5) netOffset
        in if allowedPlaced ctx L db
           then L\<lparr>placed := (placed L)[i := True],
                  placedBounds := (placedBounds L)[i := db],
                  pane := setAutomaticOffset (pane L) (acs ! i) offset\<rparr>
           else L)"

text \<open>Third pass: the unplaced aircraft start from the ideal offset or from the last one.\<close>

definition startStep :: "FrameContext \<Rightarrow> acid list \<Rightarrow> nat \<Rightarrow> LayoutState \<Rightarrow> LayoutState" where
  "startStep ctx acs i L =
     (if placed L ! i then L
      else
        let state = stateOf (pane L) (acs ! i)
        in if fst (datablockAutomaticOffset state) = 0 \<and> snd (datablockAutomaticOffset state) = 0
           then L\<lparr>pane := setAutomaticOffset (pane L) (acs ! i)
                            (offsetSelfOnly (pane L) (acOf ctx (acs ! i)) state)\<rparr>
           else L)"

definition initBoundsStep :: "FrameContext \<Rightarrow> acid list \<Rightarrow> nat \<Rightarrow> LayoutState \<Rightarrow> LayoutState" where
  "initBoundsStep ctx acs i L =
     (if placed L ! i then L
      else
        let state = stateOf (pane L) (acs ! i);
            pw = windowPos ctx (acs ! i)
        in L\<lparr>placedBounds := (placedBounds L)[i := Expand (WindowDatablockBounds state pw) 5]\<rparr>)"

text \<open>
  The relaxation: the force on the box of index \<open>i\<close>, then one visit of an unplaced box, one
  iteration over all boxes, and the 20 iterations (the early exit is commented out in the
  source, and \<^verbatim>\<open>anyOverlap\<close> is then read by nothing).
\<close>

definition iterScale :: real where
  "iterScale = 2"

definition repulsion :: "FrameContext \<Rightarrow> LayoutState \<Rightarrow> nat \<Rightarrow> Extent2D \<Rightarrow> vec" where
  "repulsion ctx L i db =
     fold (\<lambda>j force.
             if i = j \<or> \<not> overlaps ctx db (placedBounds L ! j) then force
             else add2f force (normalize2f (sub2f (Center db) (Center (placedBounds L ! j)))))
       [0..<length (placedBounds L)] (0, 0)"

definition clampForce :: "vec \<Rightarrow> vec" where
  "clampForce force0 =
     (let force = scale2f force0 iterScale;
          maxlen = 32
      in if length2f force > maxlen then scale2f force (maxlen / length2f force) else force)"

definition relaxStep :: "FrameContext \<Rightarrow> acid list \<Rightarrow> nat \<Rightarrow> LayoutState \<Rightarrow> LayoutState" where
  "relaxStep ctx acs i L =
     (if placed L ! i then L
      else
        let db = placedBounds L ! i;
            force = clampForce (repulsion ctx L i db);
            state = stateOf (pane L) (acs ! i)
        in L\<lparr>pane := setAutomaticOffset (pane L) (acs ! i)
                         (add2f (datablockAutomaticOffset state) force),
              placedBounds := (placedBounds L)[i := db]\<rparr>)"

definition relaxIter :: "FrameContext \<Rightarrow> acid list \<Rightarrow> LayoutState \<Rightarrow> LayoutState" where
  "relaxIter ctx acs L = fold (relaxStep ctx acs) [0..<length acs] L"

definition relaxation :: "FrameContext \<Rightarrow> acid list \<Rightarrow> LayoutState \<Rightarrow> LayoutState" where
  "relaxation ctx acs L = fold (\<lambda>iter. relaxIter ctx acs) [0..<20] L"

text \<open>The attraction back to the ideal offset: one visit, one pass, the loop of passes.\<close>

definition allowedOthers :: "FrameContext \<Rightarrow> LayoutState \<Rightarrow> nat \<Rightarrow> Extent2D \<Rightarrow> bool" where
  "allowedOthers ctx L idx b =
     list_all (\<lambda>i. \<not> (i \<noteq> idx \<and> overlaps ctx b (placedBounds L ! i)))
       [0..<length (placedBounds L)]"

definition goBack :: "FrameContext \<Rightarrow> acid list \<Rightarrow> LayoutState \<Rightarrow> nat \<Rightarrow> vec" where
  "goBack ctx acs L i =
     (let state = stateOf (pane L) (acs ! i)
      in sub2f (offsetSelfOnly (pane L) (acOf ctx (acs ! i)) state) (datablockAutomaticOffset state))"

definition attractStep ::
  "FrameContext \<Rightarrow> acid list \<Rightarrow> nat \<Rightarrow> bool \<times> LayoutState \<Rightarrow> bool \<times> LayoutState" where
  "attractStep ctx acs i mL =
     (let anyMoved = fst mL; L = snd mL
      in if placed L ! i then mL
         else
           let db = placedBounds L ! i;
               state = stateOf (pane L) (acs ! i)
           in if length2f (goBack ctx acs L i) < 1 then mL
              else
                let force = normalize2f (goBack ctx acs L i);
                    dbMoved = Offset db force
                in if allowedOthers ctx L i dbMoved
                   then (True,
                         L\<lparr>placedBounds := (placedBounds L)[i := dbMoved],
                           pane := setAutomaticOffset (pane L) (acs ! i)
                                     (add2f (datablockAutomaticOffset state) force)\<rparr>)
                   else mL)"

definition attractPass :: "FrameContext \<Rightarrow> acid list \<Rightarrow> LayoutState \<Rightarrow> bool \<times> LayoutState" where
  "attractPass ctx acs L = fold (attractStep ctx acs) [0..<length acs] (False, L)"

text \<open>
  What bounds the number of passes: the whole units of distance between the automatic
  offset and the ideal one, summed over the unplaced boxes.
\<close>

definition attractMeasure :: "FrameContext \<Rightarrow> acid list \<Rightarrow> LayoutState \<Rightarrow> nat" where
  "attractMeasure ctx acs L =
     sum_list (map (\<lambda>i. if placed L ! i then 0 else nat \<lfloor>length2f (goBack ctx acs L i)\<rfloor>)
                 [0..<length acs])"

text \<open>
  An unplaced box of index \<open>i\<close> takes its unit step when it is at least one unit away from
  its ideal offset and the moved box overlaps no other box; the step moves the box and the
  automatic offset together.
\<close>

definition attractAccepts :: "FrameContext \<Rightarrow> acid list \<Rightarrow> LayoutState \<Rightarrow> nat \<Rightarrow> bool" where
  "attractAccepts ctx acs L i \<longleftrightarrow>
     \<not> placed L ! i \<and> 1 \<le> length2f (goBack ctx acs L i) \<and>
     allowedOthers ctx L i (Offset (placedBounds L ! i) (normalize2f (goBack ctx acs L i)))"

definition attractMove :: "FrameContext \<Rightarrow> acid list \<Rightarrow> LayoutState \<Rightarrow> nat \<Rightarrow> LayoutState" where
  "attractMove ctx acs L i =
     L\<lparr>placedBounds := (placedBounds L)[i := Offset (placedBounds L ! i) (normalize2f (goBack ctx acs L i))],
       pane := setAutomaticOffset (pane L) (acs ! i)
                 (add2f (datablockAutomaticOffset (stateOf (pane L) (acs ! i)))
                    (normalize2f (goBack ctx acs L i)))\<rparr>"

definition attractTerm :: "FrameContext \<Rightarrow> acid list \<Rightarrow> LayoutState \<Rightarrow> nat \<Rightarrow> nat" where
  "attractTerm ctx acs L i = (if placed L ! i then 0 else nat \<lfloor>length2f (goBack ctx acs L i)\<rfloor>)"

text \<open>
  The loop of passes; it is shown to terminate further down, once the measure is known to
  decrease with every pass that moves a box.
\<close>

function attractLoop :: "FrameContext \<Rightarrow> acid list \<Rightarrow> LayoutState \<Rightarrow> LayoutState" where
  "attractLoop ctx acs L =
     (let (anyMoved, L') = attractPass ctx acs L
      in if anyMoved then attractLoop ctx acs L' else L')"
  by pat_completeness auto

text \<open>The same loop with a bound on the number of passes, to count them.\<close>

fun attractFuel :: "nat \<Rightarrow> FrameContext \<Rightarrow> acid list \<Rightarrow> LayoutState \<Rightarrow> LayoutState option" where
  "attractFuel 0 ctx acs L = None"
| "attractFuel (Suc n) ctx acs L =
     (let (anyMoved, L') = attractPass ctx acs L
      in if anyMoved then attractFuel n ctx acs L' else Some L')"

text \<open>The automatic layout of the aircraft \<open>acs\<close>, and \<^verbatim>\<open>layoutDatablocks\<close> with its two modes.\<close>

definition initialLayout :: "RadarScopePane \<Rightarrow> acid list \<Rightarrow> LayoutState" where
  "initialLayout rs acs =
     \<lparr>pane = rs,
      placedBounds = replicate (length acs) \<lparr>p0 = (0, 0), p1 = (0, 0)\<rparr>,
      placed = replicate (length acs) False\<rparr>"

definition pinManual :: "FrameContext \<Rightarrow> acid list \<Rightarrow> LayoutState \<Rightarrow> LayoutState" where
  "pinManual ctx acs L = fold (pinStep ctx acs) [0..<length acs] L"

definition greedyIdeal :: "FrameContext \<Rightarrow> acid list \<Rightarrow> LayoutState \<Rightarrow> LayoutState" where
  "greedyIdeal ctx acs L = fold (greedyStep ctx acs) [0..<length acs] L"

definition startOffsets :: "FrameContext \<Rightarrow> acid list \<Rightarrow> LayoutState \<Rightarrow> LayoutState" where
  "startOffsets ctx acs L = fold (startStep ctx acs) [0..<length acs] L"

definition initBounds :: "FrameContext \<Rightarrow> acid list \<Rightarrow> LayoutState \<Rightarrow> LayoutState" where
  "initBounds ctx acs L = fold (initBoundsStep ctx acs) [0..<length acs] L"

definition layoutAutomatic :: "FrameContext \<Rightarrow> RadarScopePane \<Rightarrow> acid list \<Rightarrow> LayoutState" where
  "layoutAutomatic ctx rs acs =
     attractLoop ctx acs
       (relaxation ctx acs
         (initBounds ctx acs
           (startOffsets ctx acs
             (greedyIdeal ctx acs
               (pinManual ctx acs (initialLayout rs acs))))))"

definition layoutDatablocks :: "FrameContext \<Rightarrow> acid list \<Rightarrow> RadarScopePane \<Rightarrow> RadarScopePane" where
  "layoutDatablocks ctx keys rs =
     (if \<not> AutomaticDatablockLayout rs
      then fold (selfOnlyStep ctx) (rangeAircraft rs keys) rs
      else pane (layoutAutomatic ctx rs (sortedAircraft ctx rs keys)))"

section \<open>Loop invariants\<close>

text \<open>The invariant of the search loop after the candidates of index below \<open>n\<close>.\<close>

definition mitSearchInv ::
  "Navigation \<Rightarrow> (acid \<Rightarrow> Aircraft) \<Rightarrow> acid list \<Rightarrow> nat \<Rightarrow> nat \<Rightarrow> MITSearch \<Rightarrow> bool" where
  "mitSearchInv nav world arr i n st \<longleftrightarrow>
     (closest st = None \<and> minDist st = 20 \<and> (\<forall>k<n. \<not> searchAccepts nav world arr i k)) \<or>
     (\<exists>m<n. searchAccepts nav world arr i m \<and> closest st = Some (arr ! m) \<and>
        minDist st = nmdistance2ll nav (Position (world (arr ! i))) (Position (world (arr ! m))) \<and>
        (\<forall>k<n. searchAccepts nav world arr i k \<longrightarrow>
           minDist st \<le> nmdistance2ll nav (Position (world (arr ! i))) (Position (world (arr ! k)))))"

text \<open>
  What holds of the aircraft with a manual offset from the first pass on: they are marked
  placed, and their scope states are those of the pane the layout started from.
\<close>

definition manualInv :: "RadarScopePane \<Rightarrow> acid list \<Rightarrow> LayoutState \<Rightarrow> bool" where
  "manualInv rs0 acs L \<longleftrightarrow>
     length (placed L) = length acs \<and>
     (\<forall>i<length acs. hasManualOffset (stateOf rs0 (acs ! i)) \<longrightarrow> placed L ! i) \<and>
     (\<forall>ac. hasManualOffset (stateOf rs0 ac) \<longrightarrow> aircraft (pane L) ac = aircraft rs0 ac)"

text \<open>The first pass after the aircraft of index below \<open>m\<close>.\<close>

definition pinnedUpTo :: "acid list \<Rightarrow> nat \<Rightarrow> LayoutState \<Rightarrow> LayoutState \<Rightarrow> bool" where
  "pinnedUpTo acs m L0 L \<longleftrightarrow>
     pane L = pane L0 \<and> length (placed L) = length acs \<and>
     (\<forall>i<m. hasManualOffset (stateOf (pane L0) (acs ! i)) \<longrightarrow> placed L ! i)"

text \<open>
  What holds of the placed boxes from the second pass on: the slice of bounds has an entry
  for each aircraft, no manual offset has changed, the bounds recorded for a placed aircraft
  are its padded datablock bounds in the window, and two placed boxes that are not both
  manually placed do not overlap.
\<close>

definition placedInv :: "FrameContext \<Rightarrow> RadarScopePane \<Rightarrow> acid list \<Rightarrow> LayoutState \<Rightarrow> bool" where
  "placedInv ctx rs0 acs L \<longleftrightarrow>
     length (placedBounds L) = length acs \<and>
     (\<forall>ac. datablockManualOffset (stateOf (pane L) ac) = datablockManualOffset (stateOf rs0 ac)) \<and>
     (\<forall>i<length acs. placed L ! i \<longrightarrow>
        placedBounds L ! i =
          Expand (WindowDatablockBounds (stateOf (pane L) (acs ! i)) (windowPos ctx (acs ! i))) 5) \<and>
     (\<forall>i<length acs. \<forall>j<length acs.
        i \<noteq> j \<and> placed L ! i \<and> placed L ! j \<and>
        \<not> (hasManualOffset (stateOf rs0 (acs ! i)) \<and> hasManualOffset (stateOf rs0 (acs ! j))) \<longrightarrow>
        \<not> overlaps ctx (placedBounds L ! i) (placedBounds L ! j))"

text \<open>The first pass: only aircraft with a manual offset are placed, at their box.\<close>

definition pinnedBoxes :: "FrameContext \<Rightarrow> RadarScopePane \<Rightarrow> acid list \<Rightarrow> LayoutState \<Rightarrow> bool" where
  "pinnedBoxes ctx rs0 acs L \<longleftrightarrow>
     pane L = rs0 \<and> length (placedBounds L) = length acs \<and> length (placed L) = length acs \<and>
     (\<forall>i<length acs. placed L ! i \<longrightarrow>
        hasManualOffset (stateOf rs0 (acs ! i)) \<and>
        placedBounds L ! i =
          Expand (WindowDatablockBounds (stateOf rs0 (acs ! i)) (windowPos ctx (acs ! i))) 5)"

section \<open>Duplicating a pane\<close>

text \<open>
  For \<^verbatim>\<open>Duplicate\<close> the pointers matter: the scope states and the aircraft live in a heap,
  an address being an index into the list of allocated objects, and the two maps of the pane
  hold addresses. \<^verbatim>\<open>&T{...}\<close> allocates at the first unused address.
\<close>

record Heap =
  scopeStates :: "AircraftScopeState list"
  aircraftObjs :: "Aircraft list"

record PaneRefs =
  aircraftRefs :: "acid \<rightharpoonup> nat"
  ghostRefs :: "acid \<rightharpoonup> acid"

text \<open>The copy that \<^verbatim>\<open>Duplicate\<close> makes of a scope state: the ghost flag and the text.\<close>

definition dupScopeState :: "AircraftScopeState \<Rightarrow> AircraftScopeState" where
  "dupScopeState tracked =
     zeroScopeState\<lparr>isGhost := isGhost tracked, datablockText := datablockText tracked\<rparr>"

definition dupAircraftStep ::
  "PaneRefs \<Rightarrow> acid \<Rightarrow> Heap \<times> (acid \<rightharpoonup> nat) \<Rightarrow> Heap \<times> (acid \<rightharpoonup> nat)" where
  "dupAircraftStep rs ac hm =
     (let h = fst hm; m = snd hm
      in case aircraftRefs rs ac of
           None \<Rightarrow> hm
         | Some sp \<Rightarrow>
             let tracked = scopeStates h ! sp
             in (h\<lparr>scopeStates := scopeStates h @ [dupScopeState tracked]\<rparr>,
                 m(ac \<mapsto> length (scopeStates h))))"

definition dupGhostStep ::
  "PaneRefs \<Rightarrow> acid \<Rightarrow> Heap \<times> (acid \<rightharpoonup> acid) \<Rightarrow> Heap \<times> (acid \<rightharpoonup> acid)" where
  "dupGhostStep rs ac hm =
     (let h = fst hm; m = snd hm
      in case ghostRefs rs ac of
           None \<Rightarrow> hm
         | Some gh \<Rightarrow>
             let ghost = aircraftObjs h ! gh
             in (h\<lparr>aircraftObjs := aircraftObjs h @ [ghost]\<rparr>,
                 m(ac \<mapsto> length (aircraftObjs h))))"

text \<open>
  The two loops of \<^verbatim>\<open>Duplicate\<close> over the maps \<^verbatim>\<open>rs.aircraft\<close> and \<^verbatim>\<open>rs.ghostAircraft\<close>, which
  visit the keys in the orders \<open>keys\<close> and \<open>gkeys\<close>; the result is the heap and the maps of
  the duplicate.
\<close>

definition Duplicate :: "Heap \<Rightarrow> PaneRefs \<Rightarrow> acid list \<Rightarrow> acid list \<Rightarrow> Heap \<times> PaneRefs" where
  "Duplicate h rs keys gkeys =
     (let (h1, m) = fold (dupAircraftStep rs) keys (h, Map.empty);
          (h2, g) = fold (dupGhostStep rs) gkeys (h1, Map.empty)
      in (h2, \<lparr>aircraftRefs = m, ghostRefs = g\<rparr>))"

text \<open>What the first loop has built after the keys \<open>xs\<close>, and the second one likewise.\<close>

definition dupAircraftInv ::
  "Heap \<Rightarrow> PaneRefs \<Rightarrow> acid list \<Rightarrow> Heap \<times> (acid \<rightharpoonup> nat) \<Rightarrow> bool" where
  "dupAircraftInv h rs xs hm \<longleftrightarrow>
     aircraftObjs (fst hm) = aircraftObjs h \<and>
     (\<exists>ys. scopeStates (fst hm) = scopeStates h @ ys) \<and>
     (\<forall>ac. snd hm ac = None \<longleftrightarrow> \<not> (ac \<in> set xs \<and> aircraftRefs rs ac \<noteq> None)) \<and>
     (\<forall>ac sp'. snd hm ac = Some sp' \<longrightarrow>
        length (scopeStates h) \<le> sp' \<and> sp' < length (scopeStates (fst hm)) \<and>
        (\<exists>sp. aircraftRefs rs ac = Some sp \<and>
              scopeStates (fst hm) ! sp' = dupScopeState (scopeStates h ! sp)))"

definition dupGhostInv ::
  "Heap \<Rightarrow> PaneRefs \<Rightarrow> acid list \<Rightarrow> Heap \<times> (acid \<rightharpoonup> acid) \<Rightarrow> bool" where
  "dupGhostInv h rs xs hm \<longleftrightarrow>
     scopeStates (fst hm) = scopeStates h \<and>
     (\<exists>ys. aircraftObjs (fst hm) = aircraftObjs h @ ys) \<and>
     (\<forall>ac. snd hm ac = None \<longleftrightarrow> \<not> (ac \<in> set xs \<and> ghostRefs rs ac \<noteq> None)) \<and>
     (\<forall>ac g'. snd hm ac = Some g' \<longrightarrow>
        length (aircraftObjs h) \<le> g' \<and> g' < length (aircraftObjs (fst hm)) \<and>
        (\<exists>gh. ghostRefs rs ac = Some gh \<and> aircraftObjs (fst hm) ! g' = aircraftObjs h ! gh))"

section \<open>Concrete scenarios\<close>

definition pane0 :: RadarScopePane where
  "pane0 = \<lparr>RotationAngle = 0, AutomaticDatablockLayout = False, MinAltitude = 0,
     MaxAltitude = 60000, DrawRangeIndicators = True, rangeWarnings = {}, AutoMIT = False,
     CRDAEnabled = False, lastRangeNotificationPlayed = - (10 * Second),
     aircraft = Map.empty, ghostAircraft = Map.empty\<rparr>"

definition info0 :: AircraftScopeState where
  "info0 = zeroScopeState\<lparr>datablockBounds := \<lparr>p0 = (0, -24), p1 = (40, 0)\<rparr>\<rparr>"

definition plane0 :: Aircraft where
  "plane0 = \<lparr>Callsign = ''AAL1'', Heading = 0, Position = (0, 0), Altitude = 5000,
     LostTrack = False, arrive = ''KJFK''\<rparr>"

text \<open>
  A scene of three arrivals to the same airport on one line. Stand-ins for the navigation
  helpers on this scene: distance along the line, bearing east or west along it, the
  smaller angle between two headings.
\<close>

definition nav0 :: Navigation where
  "nav0 = \<lparr>nmdistance2ll = (\<lambda>p q. \<bar>fst p - fst q\<bar> + \<bar>snd p - snd q\<bar>),
     headingp2ll = (\<lambda>p q. if fst p \<le> fst q then 90 else 270),
     headingDifference = (\<lambda>a b. min \<bar>a - b\<bar> (360 - \<bar>a - b\<bar>)),
     EstimatedFutureDistance = (\<lambda>a b t. \<bar>fst (Position a) - fst (Position b)\<bar>)\<rparr>"

definition world0 :: "acid \<Rightarrow> Aircraft" where
  "world0 n =
     (if n = 1 then \<lparr>Callsign = ''AAL1'', Heading = 270, Position = (8, 0), Altitude = 5000,
                     LostTrack = False, arrive = ''KJFK''\<rparr>
      else if n = 2 then \<lparr>Callsign = ''BAW2'', Heading = 90, Position = (10, 0), Altitude = 5000,
                     LostTrack = False, arrive = ''KJFK''\<rparr>
      else \<lparr>Callsign = ''DAL3'', Heading = 90, Position = (4, 0), Altitude = 6000,
                     LostTrack = False, arrive = ''KJFK''\<rparr>)"

text \<open>
  A pane with the converging-runway aid on, tracking aircraft 1 (manually placed datablock,
  current text) and its ghost 101; the ghost of an aircraft is the pointer 100 further.
\<close>

definition state1 :: AircraftScopeState where
  "state1 = \<lparr>isGhost = False, datablockAutomaticOffset = (3, 4), datablockManualOffset = (10, 10),
     datablockText = (''AAL1 050'', ''AAL1 B738''), datablockTextCurrent = True,
     datablockBounds = \<lparr>p0 = (0, -24), p1 = (40, 0)\<rparr>\<rparr>"

definition pane1 :: RadarScopePane where
  "pane1 = pane0\<lparr>CRDAEnabled := True,
     aircraft := [1 \<mapsto> state1, 101 \<mapsto> zeroScopeState\<lparr>isGhost := True\<rparr>],
     ghostAircraft := [1 \<mapsto> 101]\<rparr>"

definition ghostOf :: "acid \<Rightarrow> acid option" where
  "ghostOf ac = Some (ac + 100)"

text \<open>
  A scene for the layout: aircraft 1 and 2 ten units apart with the same heading and the
  same datablock size, aircraft 3 far from them with a manually placed datablock. Window
  coordinates are the positions themselves.
\<close>

definition worldL :: "acid \<Rightarrow> Aircraft" where
  "worldL n =
     (if n = 1 then \<lparr>Callsign = ''AAL1'', Heading = 0, Position = (100, 100), Altitude = 5000,
                     LostTrack = False, arrive = ''KJFK''\<rparr>
      else if n = 2 then \<lparr>Callsign = ''BAW2'', Heading = 0, Position = (110, 100), Altitude = 5000,
                     LostTrack = False, arrive = ''KJFK''\<rparr>
      else \<lparr>Callsign = ''DAL3'', Heading = 0, Position = (300, 300), Altitude = 6000,
                     LostTrack = False, arrive = ''KJFK''\<rparr>)"

definition ctxL :: FrameContext where
  "ctxL = \<lparr>overlaps = Overlaps, windowFromLatLongP = (\<lambda>p. p), acOf = worldL,
     paneWidth = 800, paneHeight = 600\<rparr>"

definition paneL :: RadarScopePane where
  "paneL = pane0\<lparr>AutomaticDatablockLayout := True,
     aircraft := [1 \<mapsto> info0, 2 \<mapsto> info0, 3 \<mapsto> state1]\<rparr>"

text \<open>Two manually placed aircraft at the same window position.\<close>

definition paneM :: RadarScopePane where
  "paneM = paneL\<lparr>aircraft := [3 \<mapsto> state1, 4 \<mapsto> state1]\<rparr>"

text \<open>
  One unplaced aircraft whose automatic offset is three units to the right of its ideal
  offset, with its box where that offset puts it.
\<close>

definition paneA :: RadarScopePane where
  "paneA = paneL\<lparr>aircraft := [2 \<mapsto> info0\<lparr>datablockAutomaticOffset := (80 / 13 + 3, 192 / 13)\<rparr>]\<rparr>"

definition layoutA :: LayoutState where
  "layoutA = \<lparr>pane = paneA,
     placedBounds = [Expand (WindowDatablockBounds (stateOf paneA 2) (110, 100)) 5],
     placed = [False]\<rparr>"

text \<open>
  The state of the layout of aircraft 1 and 2 of the scene when the relaxation starts.
\<close>

definition layoutR :: LayoutState where
  "layoutR = initBounds ctxL [1, 2] (startOffsets ctxL [1, 2]
               (greedyIdeal ctxL [1, 2] (pinManual ctxL [1, 2] (initialLayout paneL [1, 2]))))"

text \<open>
  A store with aircraft 0, whose datablock is manually placed, and its ghost, aircraft 1.
\<close>

definition heap0 :: Heap where
  "heap0 = \<lparr>scopeStates = [state1, zeroScopeState\<lparr>isGhost := True\<rparr>],
     aircraftObjs = [plane0, plane0\<lparr>Position := (1, 1)\<rparr>]\<rparr>"

definition refs0 :: PaneRefs where
  "refs0 = \<lparr>aircraftRefs = [0 \<mapsto> 0, 1 \<mapsto> 1], ghostRefs = [0 \<mapsto> 1]\<rparr>"

text \<open>
  Three arrivals to the same airport flying east on one line, in the order of their distance
  to the destination: aircraft 7 ahead, aircraft 8 behind it, aircraft 9 last and far below.
\<close>

definition worldT :: "acid \<Rightarrow> Aircraft" where
  "worldT n =
     (if n = 7 then \<lparr>Callsign = ''AAL7'', Heading = 90, Position = (10, 0), Altitude = 11000,
                     LostTrack = False, arrive = ''KJFK''\<rparr>
      else if n = 8 then \<lparr>Callsign = ''BAW8'', Heading = 90, Position = (4, 0), Altitude = 12000,
                     LostTrack = False, arrive = ''KJFK''\<rparr>
      else \<lparr>Callsign = ''DAL9'', Heading = 90, Position = (1, 0), Altitude = 2000,
                     LostTrack = False, arrive = ''KJFK''\<rparr>)"

section \<open>Theorems: the conflict alert\<close>

lemma drawRangeIndicators_events:
  "snd (drawRangeIndicators rs warnings violations tSince tNow) =
     (if DrawRangeIndicators rs \<and> violations \<noteq> [] \<and>
         tSince - lastRangeNotificationPlayed rs > 3 * Second
      then [AudioEventConflictAlert] else [])"
  by (simp add: drawRangeIndicators_def Let_def)

lemma drawRangeIndicators_last:
  "lastRangeNotificationPlayed (fst (drawRangeIndicators rs warnings violations tSince tNow)) =
     (if DrawRangeIndicators rs \<and> violations \<noteq> [] \<and>
         tSince - lastRangeNotificationPlayed rs > 3 * Second
      then tNow else lastRangeNotificationPlayed rs)"
  by (simp add: drawRangeIndicators_def Let_def)

lemma drawRangeIndicators_enabled:
  "DrawRangeIndicators (fst (drawRangeIndicators rs warnings violations tSince tNow)) =
     DrawRangeIndicators rs"
  by (simp add: drawRangeIndicators_def Let_def)

lemma alertFrames_two:
  "alertFrames rs [(v1, t1), (v2, t2)] =
     snd (drawRangeIndicators rs [] v1 t1 t1) @
     snd (drawRangeIndicators (fst (drawRangeIndicators rs [] v1 t1 t1)) [] v2 t2 t2)"
  by (simp add: split_beta Let_def)

text \<open>
  C4, as the code has it: the threshold is strict. On a frame with at least one violation
  (range indicators drawn), one alert event is fired and the clock is set to the time read
  when MORE than 3 seconds have passed since the last firing, whatever the number of
  violations; at 3 seconds or less nothing is fired and the clock is left alone. So, from a
  last firing more than 3 seconds before time 0, violations at 0 s and 1 s fire once, and
  violations at 0 s and 4 s fire twice.
\<close>

theorem conflict_alert_cooldown:
  assumes "DrawRangeIndicators rs" and "violations \<noteq> []"
  shows "(3 * Second < tSince - lastRangeNotificationPlayed rs \<longrightarrow>
           snd (drawRangeIndicators rs warnings violations tSince tNow) = [AudioEventConflictAlert] \<and>
           lastRangeNotificationPlayed (fst (drawRangeIndicators rs warnings violations tSince tNow)) = tNow) \<and>
         (tSince - lastRangeNotificationPlayed rs \<le> 3 * Second \<longrightarrow>
           snd (drawRangeIndicators rs warnings violations tSince tNow) = [] \<and>
           lastRangeNotificationPlayed (fst (drawRangeIndicators rs warnings violations tSince tNow)) =
             lastRangeNotificationPlayed rs) \<and>
         length (snd (drawRangeIndicators rs warnings violations tSince tNow)) \<le> 1 \<and>
         (lastRangeNotificationPlayed rs < - (3 * Second) \<and> v2 \<noteq> [] \<longrightarrow>
           alertFrames rs [(violations, 0), (v2, 1 * Second)] = [AudioEventConflictAlert] \<and>
           alertFrames rs [(violations, 0), (v2, 4 * Second)] =
             [AudioEventConflictAlert, AudioEventConflictAlert])"
  using assms unfolding alertFrames_two
  by (simp add: drawRangeIndicators_events drawRangeIndicators_last
      drawRangeIndicators_enabled Second_def)

theorem conflict_alert_cooldown_witness:
  "snd (drawRangeIndicators pane0 [] [(1, 2), (3, 4)] 0 0) = [AudioEventConflictAlert] \<and>
   lastRangeNotificationPlayed (fst (drawRangeIndicators pane0 [] [(1, 2), (3, 4)] 0 0)) = 0 \<and>
   snd (drawRangeIndicators (pane0\<lparr>lastRangeNotificationPlayed := 0\<rparr>) [] [(1, 2)] Second Second) = [] \<and>
   alertFrames pane0 [([(1, 2), (3, 4)], 0), ([(1, 2)], 1 * Second)] = [AudioEventConflictAlert] \<and>
   alertFrames pane0 [([(1, 2), (3, 4)], 0), ([(1, 2)], 4 * Second)] =
     [AudioEventConflictAlert, AudioEventConflictAlert]"
proof -
  have en: "DrawRangeIndicators pane0" by (simp add: pane0_def)
  have en': "DrawRangeIndicators (pane0\<lparr>lastRangeNotificationPlayed := 0\<rparr>)" by (simp add: pane0_def)
  have nz: "[(1::nat, 2::nat), (3, 4)] \<noteq> []" by simp
  have nz': "[(1::nat, 2::nat)] \<noteq> []" by simp
  have far: "3 * Second < 0 - lastRangeNotificationPlayed pane0" by (simp add: pane0_def Second_def)
  have near: "Second - lastRangeNotificationPlayed (pane0\<lparr>lastRangeNotificationPlayed := 0\<rparr>) \<le> 3 * Second"
    by (simp add: Second_def)
  have old: "lastRangeNotificationPlayed pane0 < - (3 * Second)" by (simp add: pane0_def Second_def)
  show ?thesis
    using conflict_alert_cooldown [OF en nz, of 0 "[]" 0 "[(1, 2)]"]
      conflict_alert_cooldown [OF en' nz', of Second "[]" Second "[]"]
      far near old nz'
    by simp
qed

text \<open>
  C4 as stated fails at the boundary: with exactly 3 seconds elapsed since the last firing
  and a violation in the frame, no alert is fired and the clock is not reset.
\<close>

theorem conflict_alert_at_three_seconds_counterexample:
  "snd (drawRangeIndicators (pane0\<lparr>lastRangeNotificationPlayed := 0\<rparr>) [] [(1, 2)]
         (3 * Second) (3 * Second)) = [] \<and>
   lastRangeNotificationPlayed (fst (drawRangeIndicators (pane0\<lparr>lastRangeNotificationPlayed := 0\<rparr>)
         [] [(1, 2)] (3 * Second) (3 * Second))) = 0"
  by (simp add: drawRangeIndicators_def pane0_def Let_def)

section \<open>Theorems: the connection point\<close>

lemma anchorPoint_Offset:
  "anchorPoint (Offset b v) a = add2f (anchorPoint b a) v"
  by (cases a) (simp_all add: Offset_def Center_def add2f_def add_divide_distrib)

lemma wrapHeading_range:
  "- 375 \<le> a \<Longrightarrow> a < 705 \<Longrightarrow> a \<noteq> 345 \<Longrightarrow> 0 \<le> wrapHeading a \<and> wrapHeading a < 360"
  by (simp add: wrapHeading_def)

lemma datablockConnectP_sector:
  "datablockConnectP bbox a =
     (if wrapHeading a < 360 then (anchorPoint bbox (sectorAnchor (wrapHeading a)),
                                   isCornerAnchor (sectorAnchor (wrapHeading a)))
      else (anchorPoint bbox BottomLeftCorner, True))"
  by (simp add: datablockConnectP_def wrapHeading_def sectorAnchor_def Let_def)

lemma offsetSelfOnly_sector:
  "wrapHeading (Heading ac + RotationAngle rs) < 360 \<Longrightarrow>
   offsetSelfOnly rs ac info =
     (let a = sectorAnchor (wrapHeading (Heading ac + RotationAngle rs));
          v = scale2f (anchorPoint (Expand (datablockBounds info) 5) a) (-1)
      in if isCornerAnchor a then v else add2f v (scale2f (normalize2f v) 3))"
  by (simp add: offsetSelfOnly_def datablockConnectP_sector Let_def)

lemma add2f_scale_neg: "add2f a (scale2f a (-1)) = (0, 0)"
  by (simp add: add2f_def scale2f_def)

lemma add2f_assoc: "add2f (add2f a b) c = add2f a (add2f b c)"
  by (simp add: add2f_def)

lemma add2f_commute: "add2f a b = add2f b a"
  by (simp add: add2f_def)

lemma add2f_zero [simp]: "add2f a (0, 0) = a" "add2f (0, 0) a = a"
  by (simp_all add: add2f_def)

text \<open>
  C6, as the code has it. With \<open>h\<close> the heading plus the display rotation plus 15 degrees,
  wrapped (once) into [0,360), the connection point of the padded box is chosen by eight
  sectors of widths 30/60/30/60/30/60/30/60 degrees: left-edge midpoint, top-left corner,
  top-edge midpoint, bottom-left corner, left-edge midpoint, top-left corner, bottom-edge
  midpoint, bottom-left corner; no point of the right-hand side is ever chosen. The offset
  is minus the chosen point, plus 3 units along that direction for an edge midpoint only; so
  the padded box translated to the track position and by the offset has a chosen corner
  exactly at the track position, and a chosen edge midpoint 3 units further along the offset
  direction. (A sum of exactly 345 degrees, which the code leaves at \<open>h = 360\<close>, is left out.)
\<close>

theorem anchor_choice_policy:
  fixes rs :: RadarScopePane and ac :: Aircraft and info :: AircraftScopeState and pw :: vec
  defines "h \<equiv> wrapHeading (Heading ac + RotationAngle rs)"
    and "bbox \<equiv> Expand (datablockBounds info) 5"
  defines "a \<equiv> sectorAnchor h"
  defines "v \<equiv> scale2f (anchorPoint bbox a) (-1)"
  assumes "- 375 \<le> Heading ac + RotationAngle rs"
    and "Heading ac + RotationAngle rs < 705"
    and "Heading ac + RotationAngle rs \<noteq> 345"
    and "fst (p0 (datablockBounds info)) \<le> fst (p1 (datablockBounds info))"
  shows "0 \<le> h \<and> h < 360 \<and>
         datablockConnectP bbox (Heading ac + RotationAngle rs) = (anchorPoint bbox a, isCornerAnchor a) \<and>
         fst (anchorPoint bbox a) < fst (p1 bbox) \<and>
         offsetSelfOnly rs ac info = (if isCornerAnchor a then v else add2f v (scale2f (normalize2f v) 3)) \<and>
         anchorPoint (Offset (Offset bbox pw) (offsetSelfOnly rs ac info)) a =
           (if isCornerAnchor a then pw else add2f pw (scale2f (normalize2f v) 3))"
proof -
  have r: "0 \<le> h \<and> h < 360"
    unfolding h_def using assms(5-7) by (rule wrapHeading_range)
  have c: "datablockConnectP bbox (Heading ac + RotationAngle rs) = (anchorPoint bbox a, isCornerAnchor a)"
    using r by (simp add: datablockConnectP_sector h_def a_def)
  have o: "offsetSelfOnly rs ac info = (if isCornerAnchor a then v else add2f v (scale2f (normalize2f v) 3))"
    using r by (simp add: offsetSelfOnly_sector h_def a_def v_def bbox_def Let_def)
  have w: "fst (anchorPoint bbox a) < fst (p1 bbox)"
    using assms(8) by (cases a) (simp_all add: Center_def bbox_def Expand_def)
  have z: "add2f (add2f (anchorPoint bbox a) pw) v = pw"
    by (simp add: v_def add2f_def scale2f_def)
  have t: "anchorPoint (Offset (Offset bbox pw) (offsetSelfOnly rs ac info)) a =
           (if isCornerAnchor a then pw else add2f pw (scale2f (normalize2f v) 3))"
    unfolding o anchorPoint_Offset
    by (simp add: z flip: add2f_assoc)
  show ?thesis using r c o t w by blast
qed

theorem anchor_choice_policy_witness:
  "datablockConnectP (Expand (datablockBounds info0) 5) 0 = ((-5, -12), False) \<and>
   offsetSelfOnly pane0 plane0 info0 = (80 / 13, 192 / 13) \<and>
   anchorPoint (Offset (Offset (Expand (datablockBounds info0) 5) (100, 100))
       (offsetSelfOnly pane0 plane0 info0)) LeftEdgeMid = (100 + 15 / 13, 100 + 36 / 13)"
proof -
  have h1: "- 375 \<le> Heading plane0 + RotationAngle pane0"
    and h2: "Heading plane0 + RotationAngle pane0 < 705"
    and h3: "Heading plane0 + RotationAngle pane0 \<noteq> 345"
    and h4: "fst (p0 (datablockBounds info0)) \<le> fst (p1 (datablockBounds info0))"
    by (simp_all add: plane0_def pane0_def info0_def)
  have hd: "Heading plane0 + RotationAngle pane0 = 0"
    by (simp add: plane0_def pane0_def)
  have a: "sectorAnchor (wrapHeading 0) = LeftEdgeMid"
    by (simp add: wrapHeading_def sectorAnchor_def)
  have b: "anchorPoint (Expand (datablockBounds info0) 5) LeftEdgeMid = (-5, -12)"
    by (simp add: info0_def Expand_def Center_def)
  have l: "length2f (5, 12) = 13"
    by (simp add: length2f_def)
  have n: "add2f (5, 12) (scale2f (normalize2f (5, 12)) 3) = (80 / 13, 192 / 13)"
    by (simp add: normalize2f_def l scale2f_def add2f_def)
  have n': "add2f (100, 100) (scale2f (normalize2f (5, 12)) 3) = (100 + 15 / 13, 100 + 36 / 13)"
    by (simp add: normalize2f_def l scale2f_def add2f_def)
  have s: "scale2f (-5, -12) (-1) = (5, 12)"
    by (simp add: scale2f_def)
  show ?thesis
    using anchor_choice_policy [OF h1 h2 h3 h4, of "(100, 100)"]
    unfolding hd a b s isCornerAnchor.simps if_False n n' by blast
qed

text \<open>
  C6 as stated fails. Its fourth sector, 90 degrees wide, would reach from 120 to 210 and
  give a corner; at \<open>h = 190\<close> the code gives the left-edge midpoint. Its second sector
  would give the bottom-left corner; at \<open>h = 45\<close> the code gives the corner
  \<open>(p0[0], p1[1])\<close>, which is not the corner \<open>(p0[0], p0[1])\<close> it gives at \<open>h = 150\<close>.
\<close>

theorem anchor_sectors_counterexample:
  "datablockConnectP (Expand (datablockBounds info0) 5) 175 \<noteq>
     (anchorPoint (Expand (datablockBounds info0) 5) (specSectorAnchor (wrapHeading 175)),
      isCornerAnchor (specSectorAnchor (wrapHeading 175))) \<and>
   datablockConnectP (Expand (datablockBounds info0) 5) 175 = ((-5, -12), False) \<and>
   datablockConnectP (Expand (datablockBounds info0) 5) 30 = ((-5, 5), True) \<and>
   datablockConnectP (Expand (datablockBounds info0) 5) 135 = ((-5, -29), True) \<and>
   anchorPoint (Expand (datablockBounds info0) 5) (specSectorAnchor (wrapHeading 30)) = (-5, -29)"
  by (simp add: datablockConnectP_def info0_def zeroScopeState_def Expand_def Center_def
      specSectorAnchor_def wrapHeading_def Let_def)

text \<open>
  The wrap test of the code is \<open>heading > 360\<close>: a heading plus rotation of exactly 345
  degrees stays at 360 and falls into the last sector, not into the first.
\<close>

lemma datablockConnectP_at_345:
  "datablockConnectP bbox 345 = ((fst (p0 bbox), snd (p0 bbox)), True) \<and>
   datablockConnectP bbox (-15) = ((fst (p0 bbox), snd (Center bbox)), False)"
  by (simp add: datablockConnectP_def Let_def)

section \<open>Theorems: miles in trail\<close>

lemma mitSearchStep_cases:
  "mitSearchStep nav world arr i j st =
     (if j \<noteq> i \<and> arrive (world (arr ! j)) = arrive (world (arr ! i)) \<and>
         nmdistance2ll nav (Position (world (arr ! i))) (Position (world (arr ! j))) < minDist st \<and>
         inTrail nav (world (arr ! i)) (world (arr ! j))
      then st\<lparr>minDist := nmdistance2ll nav (Position (world (arr ! i))) (Position (world (arr ! j))),
              estDist := EstimatedFutureDistance nav (world (arr ! j)) (world (arr ! i)) 30,
              closest := Some (arr ! j)\<rparr>
      else st)"
  by (auto simp: mitSearchStep_def Let_def)

lemma searchAccepts_iff:
  "searchAccepts nav world arr i j \<longleftrightarrow>
     j < length arr \<and> j \<noteq> i \<and> arrive (world (arr ! j)) = arrive (world (arr ! i)) \<and>
     nmdistance2ll nav (Position (world (arr ! i))) (Position (world (arr ! j))) < 20 \<and>
     inTrail nav (world (arr ! i)) (world (arr ! j))"
  by (auto simp: searchAccepts_def inTrail_def Let_def)

lemma mitSearchInv_step:
  assumes "j < length arr" and "mitSearchInv nav world arr i j st"
  shows "mitSearchInv nav world arr i (Suc j) (mitSearchStep nav world arr i j st)"
proof -
  let ?D = "\<lambda>k. nmdistance2ll nav (Position (world (arr ! i))) (Position (world (arr ! k)))"
  have le20: "minDist st \<le> 20"
    using assms(2) by (auto simp: mitSearchInv_def searchAccepts_iff)
  show ?thesis
  proof (cases "j \<noteq> i \<and> arrive (world (arr ! j)) = arrive (world (arr ! i)) \<and>
         ?D j < minDist st \<and> inTrail nav (world (arr ! i)) (world (arr ! j))")
    case True
    then have v: "searchAccepts nav world arr i j"
      using assms(1) le20 by (simp add: searchAccepts_iff)
    have old: "\<forall>k<j. searchAccepts nav world arr i k \<longrightarrow> ?D j \<le> ?D k"
      using assms(2) True by (fastforce simp: mitSearchInv_def)
    have "\<forall>k<Suc j. searchAccepts nav world arr i k \<longrightarrow> ?D j \<le> ?D k"
      using old by (simp add: less_Suc_eq)
    then show ?thesis
      using True v unfolding mitSearchInv_def mitSearchStep_cases
      by (intro disjI2 exI [of _ j]) simp
  next
    case False
    have same: "mitSearchStep nav world arr i j st = st"
      unfolding mitSearchStep_cases by (rule if_not_P [OF False])
    have vj: "searchAccepts nav world arr i j \<Longrightarrow> minDist st \<le> ?D j"
      using False by (auto simp: searchAccepts_iff)
    from assms(2) show ?thesis
      unfolding same mitSearchInv_def
    proof (elim disjE conjE exE)
      assume "closest st = None" "minDist st = 20" "\<forall>k<j. \<not> searchAccepts nav world arr i k"
      moreover have "\<not> searchAccepts nav world arr i j"
        using vj \<open>minDist st = 20\<close> by (auto simp: searchAccepts_iff)
      ultimately show "(closest st = None \<and> minDist st = 20 \<and> (\<forall>k<Suc j. \<not> searchAccepts nav world arr i k)) \<or>
        (\<exists>m<Suc j. searchAccepts nav world arr i m \<and> closest st = Some (arr ! m) \<and> minDist st = ?D m \<and>
           (\<forall>k<Suc j. searchAccepts nav world arr i k \<longrightarrow> minDist st \<le> ?D k))"
        by (simp add: less_Suc_eq)
    next
      fix m
      assume "m < j" "searchAccepts nav world arr i m" "closest st = Some (arr ! m)" "minDist st = ?D m"
        "\<forall>k<j. searchAccepts nav world arr i k \<longrightarrow> minDist st \<le> ?D k"
      then show "(closest st = None \<and> minDist st = 20 \<and> (\<forall>k<Suc j. \<not> searchAccepts nav world arr i k)) \<or>
        (\<exists>m<Suc j. searchAccepts nav world arr i m \<and> closest st = Some (arr ! m) \<and> minDist st = ?D m \<and>
           (\<forall>k<Suc j. searchAccepts nav world arr i k \<longrightarrow> minDist st \<le> ?D k))"
        using vj by (intro disjI2 exI [of _ m]) (auto simp: less_Suc_eq)
    qed
  qed
qed

lemma mitSearchInv_fold:
  "n \<le> length arr \<Longrightarrow>
   mitSearchInv nav world arr i n
     (fold (mitSearchStep nav world arr i) [0..<n] \<lparr>closest = None, minDist = 20, estDist = 0\<rparr>)"
proof (induction n)
  case 0
  show ?case by (simp add: mitSearchInv_def)
next
  case (Suc n)
  then show ?case by (simp add: mitSearchInv_step)
qed

lemma mitSearchInv_mitSearch:
  "mitSearchInv nav world arr i (length arr) (mitSearch nav world arr i)"
  unfolding mitSearch_def by (rule mitSearchInv_fold) simp

lemma drawMIT_auto:
  "AutoMIT rs \<Longrightarrow> drawMIT rs nav world arr [] = concat (map (autoMITLine rs nav world arr) [1..<length arr])"
  by (simp add: drawMIT_def)

text \<open>
  What the search of the code returns: if its loop accepts some index, an accepted aircraft
  at minimum distance among the accepted ones, and nothing otherwise.
\<close>

lemma mitSearch_selects_nearest_accepted:
  "(AutoMIT rs \<longrightarrow>
      drawMIT rs nav world arr [] = concat (map (autoMITLine rs nav world arr) [1..<length arr])) \<and>
   ((\<exists>j. searchAccepts nav world arr i j) \<longrightarrow>
      (\<exists>m. searchAccepts nav world arr i m \<and>
           closest (mitSearch nav world arr i) = Some (arr ! m) \<and>
           minDist (mitSearch nav world arr i) =
             nmdistance2ll nav (Position (world (arr ! i))) (Position (world (arr ! m))) \<and>
           (\<forall>k. searchAccepts nav world arr i k \<longrightarrow>
                minDist (mitSearch nav world arr i) \<le>
                  nmdistance2ll nav (Position (world (arr ! i))) (Position (world (arr ! k)))))) \<and>
   ((\<forall>j. \<not> searchAccepts nav world arr i j) \<longrightarrow> closest (mitSearch nav world arr i) = None)"
proof (intro conjI impI)
  assume "AutoMIT rs"
  then show "drawMIT rs nav world arr [] = concat (map (autoMITLine rs nav world arr) [1..<length arr])"
    by (rule drawMIT_auto)
next
  have inv: "mitSearchInv nav world arr i (length arr) (mitSearch nav world arr i)"
    by (rule mitSearchInv_mitSearch)
  have bound: "\<And>k. searchAccepts nav world arr i k \<Longrightarrow> k < length arr"
    by (simp add: searchAccepts_def)
  {
    assume "\<exists>j. searchAccepts nav world arr i j"
    then show "\<exists>m. searchAccepts nav world arr i m \<and>
           closest (mitSearch nav world arr i) = Some (arr ! m) \<and>
           minDist (mitSearch nav world arr i) =
             nmdistance2ll nav (Position (world (arr ! i))) (Position (world (arr ! m))) \<and>
           (\<forall>k. searchAccepts nav world arr i k \<longrightarrow>
                minDist (mitSearch nav world arr i) \<le>
                  nmdistance2ll nav (Position (world (arr ! i))) (Position (world (arr ! k))))"
      using inv bound unfolding mitSearchInv_def by blast
  }
  {
    assume "\<forall>j. \<not> searchAccepts nav world arr i j"
    then show "closest (mitSearch nav world arr i) = None"
      using inv unfolding mitSearchInv_def by blast
  }
qed

text \<open>
  C5 on a scene of three arrivals to the same airport flying east in trail: aircraft 7 leads,
  aircraft 8 follows it 6 units behind and 1000 higher, aircraft 9 is 3 units behind
  aircraft 8 and 10000 below it. For aircraft 8 the leader 7 is a valid predecessor and
  aircraft 9 is not. With the arrivals 7 and 8 alone the search for aircraft 8 selects
  nothing and no line is drawn; with all three it selects aircraft 9. The in-trail test is
  called with the arrival searched for in the place of the leading aircraft and the
  candidate in the place of the trailing one.
\<close>

theorem autoMIT_misses_predecessor_in_trail:
  "validPredecessor nav0 worldT [7, 8] 1 0 \<and>
   closest (mitSearch nav0 worldT [7, 8] 1) = None \<and>
   drawMIT (pane0\<lparr>AutoMIT := True\<rparr>) nav0 worldT [7, 8] [] = [] \<and>
   validPredecessor nav0 worldT [7, 8, 9] 1 0 \<and>
   \<not> validPredecessor nav0 worldT [7, 8, 9] 1 2 \<and>
   closest (mitSearch nav0 worldT [7, 8, 9] 1) = Some 9 \<and>
   map (\<lambda>l. (lineFrom l, lineTo l))
     (drawMIT (pane0\<lparr>AutoMIT := True\<rparr>) nav0 worldT [7, 8, 9] []) = [(8, 9)]"
proof -
  have v: "validPredecessor nav0 worldT [7, 8] 1 0"
    "validPredecessor nav0 worldT [7, 8, 9] 1 0"
    "\<not> validPredecessor nav0 worldT [7, 8, 9] 1 2"
    by (simp_all add: validPredecessor_def nav0_def worldT_def)
  have s2: "closest (mitSearch nav0 worldT [7, 8] 1) = None"
    by (simp add: mitSearch_def upt_rec mitSearchStep_def inTrail_def nav0_def worldT_def Let_def)
  have s3: "closest (mitSearch nav0 worldT [7, 8, 9] 1) = Some 9"
    by (simp add: mitSearch_def upt_rec mitSearchStep_def inTrail_def nav0_def worldT_def Let_def)
  have d2: "drawMIT (pane0\<lparr>AutoMIT := True\<rparr>) nav0 worldT [7, 8] [] = []"
    by (simp add: drawMIT_def autoMITLine_def mitSearch_def upt_rec mitSearchStep_def inTrail_def
        nav0_def worldT_def pane0_def Let_def)
  have d3: "map (\<lambda>l. (lineFrom l, lineTo l))
     (drawMIT (pane0\<lparr>AutoMIT := True\<rparr>) nav0 worldT [7, 8, 9] []) = [(8, 9)]"
    by (simp add: drawMIT_def autoMITLine_def mitSearch_def upt_rec mitSearchStep_def inTrail_def
        nav0_def worldT_def pane0_def Let_def)
  show ?thesis
    using v s2 s3 d2 d3 by blast
qed

lemma addRangeWarnings_mono: "x \<in> m \<Longrightarrow> x \<in> addRangeWarnings ws m"
  unfolding addRangeWarnings_def by (induction ws arbitrary: m) auto

lemma addRangeWarnings_both:
  "(a, b) \<in> set ws \<Longrightarrow> (a, b) \<in> addRangeWarnings ws m \<and> (b, a) \<in> addRangeWarnings ws m"
proof (induction ws arbitrary: m)
  case Nil
  then show ?case by simp
next
  case (Cons w ws)
  show ?case
  proof (cases "w = (a, b)")
    case True
    have "(a, b) \<in> insert (snd w, fst w) (insert (fst w, snd w) m)"
      and "(b, a) \<in> insert (snd w, fst w) (insert (fst w, snd w) m)"
      using True by auto
    then have "(a, b) \<in> addRangeWarnings ws (insert (snd w, fst w) (insert (fst w, snd w) m))"
      and "(b, a) \<in> addRangeWarnings ws (insert (snd w, fst w) (insert (fst w, snd w) m))"
      by (auto intro: addRangeWarnings_mono)
    then show ?thesis by (simp add: addRangeWarnings_def)
  next
    case False
    with Cons.prems have "(a, b) \<in> set ws" by simp
    from Cons.IH [OF this, of "insert (snd w, fst w) (insert (fst w, snd w) m)"]
    show ?thesis by (simp add: addRangeWarnings_def)
  qed
qed

lemma drawRangeIndicators_rangeWarnings:
  "DrawRangeIndicators rs \<Longrightarrow>
   rangeWarnings (fst (drawRangeIndicators rs warnings violations tSince tNow)) =
     addRangeWarnings violations (addRangeWarnings warnings {})"
  by (simp add: drawRangeIndicators_def Let_def)

lemma drawRangeIndicators_symmetric:
  assumes "DrawRangeIndicators rs" and "(a, b) \<in> set warnings \<union> set violations"
  shows "(a, b) \<in> rangeWarnings (fst (drawRangeIndicators rs warnings violations tSince tNow)) \<and>
         (b, a) \<in> rangeWarnings (fst (drawRangeIndicators rs warnings violations tSince tNow))"
  using assms
  by (auto simp: drawRangeIndicators_rangeWarnings dest: addRangeWarnings_both intro: addRangeWarnings_mono)

lemma autoMITLine_not_warned:
  "l \<in> set (autoMITLine rs nav world arr i) \<Longrightarrow> (lineFrom l, lineTo l) \<notin> rangeWarnings rs"
  by (auto simp: autoMITLine_def Let_def split: option.splits if_splits)

lemma explicitMITLine_not_warned:
  "l \<in> set (explicitMITLine rs nav world mit i) \<Longrightarrow> (lineFrom l, lineTo l) \<notin> rangeWarnings rs"
  by (auto simp: explicitMITLine_def Let_def split: if_splits)

lemma drawMIT_not_warned:
  "l \<in> set (drawMIT rs nav world arr mit) \<Longrightarrow> (lineFrom l, lineTo l) \<notin> rangeWarnings rs"
  by (auto simp: drawMIT_def dest: autoMITLine_not_warned explicitMITLine_not_warned split: if_splits)

text \<open>
  C7. After the range indicators of the frame have recorded the warning and violation
  pairs, each in both orders, no line of the miles-in-trail output of the frame, in the
  explicit mode or in the automatic one, joins a pair that is among them, in either order.
\<close>

theorem mit_suppressed_for_range_warnings:
  assumes "DrawRangeIndicators rs" and "(a, b) \<in> set warnings \<union> set violations"
  shows "\<forall>l \<in> set (drawMIT (fst (drawRangeIndicators rs warnings violations tSince tNow))
                    nav world arr mit).
           (lineFrom l, lineTo l) \<noteq> (a, b) \<and> (lineFrom l, lineTo l) \<noteq> (b, a)"
  using drawRangeIndicators_symmetric [OF assms] drawMIT_not_warned by metis

theorem mit_suppressed_for_range_warnings_witness:
  "DrawRangeIndicators pane0 \<and>
   ((1, 2) :: acid \<times> acid) \<in> set [(1, 2)] \<union> set [] \<and>
   (2, 1) \<notin> set (map (\<lambda>l. (lineFrom l, lineTo l))
     (drawMIT (fst (drawRangeIndicators pane0 [(1, 2)] [] 0 0)) nav0 world0 [] [2, 1, 3])) \<and>
   map (\<lambda>l. (lineFrom l, lineTo l))
     (drawMIT (fst (drawRangeIndicators pane0 [(1, 2)] [] 0 0)) nav0 world0 [] [2, 1, 3]) = [(1, 3)] \<and>
   map (\<lambda>l. (lineFrom l, lineTo l))
     (drawMIT (fst (drawRangeIndicators (pane0\<lparr>AutoMIT := True\<rparr>) [] [(3, 2)] 0 0))
        nav0 world0 [1, 2, 3] []) = [(3, 1)]"
proof -
  have en: "DrawRangeIndicators pane0"
    by (simp add: pane0_def)
  have mem: "((1, 2) :: acid \<times> acid) \<in> set [(1, 2)] \<union> set []"
    by simp
  have expl: "map (\<lambda>l. (lineFrom l, lineTo l))
     (drawMIT (fst (drawRangeIndicators pane0 [(1, 2)] [] 0 0)) nav0 world0 [] [2, 1, 3]) = [(1, 3)]"
    by (simp add: drawMIT_def drawRangeIndicators_def pane0_def addRangeWarnings_def
        explicitMITLine_def upt_rec Let_def)
  have auto: "map (\<lambda>l. (lineFrom l, lineTo l))
     (drawMIT (fst (drawRangeIndicators (pane0\<lparr>AutoMIT := True\<rparr>) [] [(3, 2)] 0 0))
        nav0 world0 [1, 2, 3] []) = [(3, 1)]"
    by (simp add: drawMIT_def drawRangeIndicators_def pane0_def addRangeWarnings_def
        autoMITLine_def mitSearch_def mitSearchStep_def inTrail_def nav0_def world0_def
        upt_rec Let_def)
  show ?thesis
    using mit_suppressed_for_range_warnings [OF en mem, of 0 0 nav0 world0 "[]" "[2, 1, 3]"]
      en mem expl auto
    by fastforce
qed

section \<open>Theorems: aircraft events\<close>

lemma addGhost_other:
  "getGhost ac \<noteq> Some ac \<Longrightarrow> aircraft (addGhost getGhost ac rs) ac = aircraft rs ac"
  by (auto simp: addGhost_def split: option.splits)

text \<open>
  C10. A modify event has no failing branch. For an aircraft that is not in the store it
  stores the zero scope state under it; for a tracked aircraft it keeps the state and only
  clears the flag that says the cached text is current, so the manual and automatic offsets
  stay what they were. A ghost is never the aircraft it is the ghost of: neither the ghost
  recorded for the aircraft nor the one computed for it is the aircraft itself.
\<close>

theorem modify_event_adds_or_marks_stale:
  assumes "getGhost ac \<noteq> Some ac" and "ghostAircraft rs ac \<noteq> Some ac"
  shows "(aircraft rs ac = None \<longrightarrow>
            aircraft (processEvent getGhost (ModifiedAircraftEvent ac) rs) ac = Some zeroScopeState) \<and>
         (\<forall>state. aircraft rs ac = Some state \<longrightarrow>
            aircraft (processEvent getGhost (ModifiedAircraftEvent ac) rs) ac =
              Some (state\<lparr>datablockTextCurrent := False\<rparr>) \<and>
            datablockManualOffset (stateOf (processEvent getGhost (ModifiedAircraftEvent ac) rs) ac) =
              datablockManualOffset state \<and>
            datablockAutomaticOffset (stateOf (processEvent getGhost (ModifiedAircraftEvent ac) rs) ac) =
              datablockAutomaticOffset state)"
  using assms
  by (auto simp: Let_def addGhost_other stateOf_def split: option.splits)

theorem modify_event_adds_or_marks_stale_witness:
  "aircraft pane1 2 = None \<and> aircraft pane1 1 = Some state1 \<and>
   aircraft (processEvent ghostOf (ModifiedAircraftEvent 2) pane1) 2 = Some zeroScopeState \<and>
   aircraft (processEvent ghostOf (ModifiedAircraftEvent 1) pane1) 1 =
     Some (state1\<lparr>datablockTextCurrent := False\<rparr>) \<and>
   datablockManualOffset (stateOf (processEvent ghostOf (ModifiedAircraftEvent 1) pane1) 1) = (10, 10) \<and>
   datablockAutomaticOffset (stateOf (processEvent ghostOf (ModifiedAircraftEvent 1) pane1) 1) = (3, 4)"
proof -
  have g1: "ghostOf 1 \<noteq> Some 1" and g2: "ghostOf 2 \<noteq> Some 2"
    by (simp_all add: ghostOf_def)
  have o1: "ghostAircraft pane1 1 \<noteq> Some 1" and o2: "ghostAircraft pane1 2 \<noteq> Some 2"
    by (simp_all add: pane1_def)
  have n: "aircraft pane1 2 = None" and t: "aircraft pane1 1 = Some state1"
    by (simp_all add: pane1_def)
  have m: "datablockManualOffset state1 = (10, 10)" and a: "datablockAutomaticOffset state1 = (3, 4)"
    by (simp_all add: state1_def)
  show ?thesis
    using modify_event_adds_or_marks_stale [of ghostOf 1 pane1, OF g1 o1]
      modify_event_adds_or_marks_stale [of ghostOf 2 pane1, OF g2 o2]
      n t m a
    by metis
qed

section \<open>Theorems: the attraction back\<close>

lemma length2f_nonneg: "0 \<le> length2f v"
  by (simp add: length2f_def)

lemma length2f_scale: "length2f (scale2f v c) = \<bar>c\<bar> * length2f v"
proof -
  have "fst (scale2f v c) * fst (scale2f v c) + snd (scale2f v c) * snd (scale2f v c) =
        c\<^sup>2 * (fst v * fst v + snd v * snd v)"
    by (simp add: scale2f_def power2_eq_square algebra_simps)
  then show ?thesis
    by (simp add: length2f_def real_sqrt_mult)
qed

lemma sub2f_normalize: 
  assumes "length2f g \<noteq> 0"
  shows "sub2f g (normalize2f g) = scale2f g (1 - 1 / length2f g)"
  using assms by (simp add: normalize2f_def sub2f_def scale2f_def algebra_simps)

lemma unit_step_closer:
  assumes "1 \<le> length2f g"
  shows "length2f (sub2f g (normalize2f g)) = length2f g - 1"
proof -
  have nz: "length2f g \<noteq> 0" using assms by simp
  have "length2f (sub2f g (normalize2f g)) = \<bar>1 - 1 / length2f g\<bar> * length2f g"
    by (simp add: sub2f_normalize [OF nz] length2f_scale)
  also have "\<bar>1 - 1 / length2f g\<bar> = 1 - 1 / length2f g"
    using assms by simp
  also have "(1 - 1 / length2f g) * length2f g = length2f g - 1"
    using nz by (simp add: algebra_simps)
  finally show ?thesis .
qed

lemma sub2f_add2f: "sub2f a (add2f b c) = sub2f (sub2f a b) c"
  by (simp add: sub2f_def add2f_def)

lemma floor_unit_step: "1 \<le> (x::real) \<Longrightarrow> nat \<lfloor>x - 1\<rfloor> < nat \<lfloor>x\<rfloor>"
  by linarith

lemma stateOf_setAutomaticOffset:
  "stateOf (setAutomaticOffset rs ac v) ac' =
     (if ac' = ac then (stateOf rs ac)\<lparr>datablockAutomaticOffset := v\<rparr> else stateOf rs ac')"
  by (simp add: stateOf_def setAutomaticOffset_def)

lemma offsetSelfOnly_setAutomaticOffset:
  "offsetSelfOnly (setAutomaticOffset rs ac v) a info = offsetSelfOnly rs a info"
  by (simp add: offsetSelfOnly_def setAutomaticOffset_def)

lemma offsetSelfOnly_automatic_update:
  "offsetSelfOnly rs a (info\<lparr>datablockAutomaticOffset := v\<rparr>) = offsetSelfOnly rs a info"
  by (simp add: offsetSelfOnly_def)

lemma attractStep_cases:
  "attractStep ctx acs i (m, L) =
     (if attractAccepts ctx acs L i then (True, attractMove ctx acs L i) else (m, L))"
  by (simp add: attractStep_def attractAccepts_def attractMove_def Let_def not_less)

lemma placed_attractMove: "placed (attractMove ctx acs L i) = placed L"
  by (simp add: attractMove_def)

lemma goBack_attractMove:
  "goBack ctx acs (attractMove ctx acs L i) k =
     (if acs ! k = acs ! i then sub2f (goBack ctx acs L i) (normalize2f (goBack ctx acs L i))
      else goBack ctx acs L k)"
  by (simp add: goBack_def attractMove_def stateOf_setAutomaticOffset
      offsetSelfOnly_setAutomaticOffset offsetSelfOnly_automatic_update sub2f_add2f Let_def)

lemma attractMeasure_sum:
  "attractMeasure ctx acs L = (\<Sum>i = 0..<length acs. attractTerm ctx acs L i)"
  by (simp add: attractMeasure_def attractTerm_def interv_sum_list_conv_sum_set_nat)

lemma goBack_same_aircraft: "acs ! k = acs ! i \<Longrightarrow> goBack ctx acs L k = goBack ctx acs L i"
  by (simp add: goBack_def)

lemma attractTerm_attractMove_le:
  assumes "attractAccepts ctx acs L i"
  shows "attractTerm ctx acs (attractMove ctx acs L i) k \<le> attractTerm ctx acs L k"
proof (cases "acs ! k = acs ! i")
  case True
  have "1 \<le> length2f (goBack ctx acs L i)"
    using assms by (simp add: attractAccepts_def)
  then have "nat \<lfloor>length2f (goBack ctx acs L i) - 1\<rfloor> \<le> nat \<lfloor>length2f (goBack ctx acs L i)\<rfloor>"
    by linarith
  then show ?thesis
    using True \<open>1 \<le> length2f (goBack ctx acs L i)\<close>
    by (simp add: attractTerm_def placed_attractMove goBack_attractMove unit_step_closer
        goBack_same_aircraft [OF True])
next
  case False
  then show ?thesis
    by (simp add: attractTerm_def placed_attractMove goBack_attractMove)
qed

lemma attractTerm_attractMove_less:
  assumes "attractAccepts ctx acs L i"
  shows "attractTerm ctx acs (attractMove ctx acs L i) i < attractTerm ctx acs L i"
proof -
  have one: "1 \<le> length2f (goBack ctx acs L i)" and np: "\<not> placed L ! i"
    using assms by (simp_all add: attractAccepts_def)
  from one have "nat \<lfloor>length2f (goBack ctx acs L i) - 1\<rfloor> < nat \<lfloor>length2f (goBack ctx acs L i)\<rfloor>"
    by (rule floor_unit_step)
  then show ?thesis
    using one np
    by (simp add: attractTerm_def placed_attractMove goBack_attractMove unit_step_closer)
qed

lemma attractMeasure_attractMove:
  assumes "attractAccepts ctx acs L i" and "i < length acs"
  shows "attractMeasure ctx acs (attractMove ctx acs L i) < attractMeasure ctx acs L"
  unfolding attractMeasure_sum
proof (rule sum_strict_mono_ex1)
  show "finite {0..<length acs}" by simp
  show "\<forall>k\<in>{0..<length acs}. attractTerm ctx acs (attractMove ctx acs L i) k \<le> attractTerm ctx acs L k"
    using attractTerm_attractMove_le [OF assms(1)] by blast
  show "\<exists>k\<in>{0..<length acs}. attractTerm ctx acs (attractMove ctx acs L i) k < attractTerm ctx acs L k"
    using attractTerm_attractMove_less [OF assms(1)] assms(2) by auto
qed

lemma attractStep_measure:
  assumes "i < length acs"
  shows "attractMeasure ctx acs (snd (attractStep ctx acs i (m, L))) \<le> attractMeasure ctx acs L \<and>
         (fst (attractStep ctx acs i (m, L)) \<longrightarrow>
            m \<or> attractMeasure ctx acs (snd (attractStep ctx acs i (m, L))) < attractMeasure ctx acs L)"
  using attractMeasure_attractMove [OF _ assms, of ctx L]
  by (auto simp: attractStep_cases less_imp_le)

lemma attractFold_measure:
  "n \<le> length acs \<Longrightarrow>
   attractMeasure ctx acs (snd (fold (attractStep ctx acs) [0..<n] (False, L))) \<le> attractMeasure ctx acs L \<and>
   (fst (fold (attractStep ctx acs) [0..<n] (False, L)) \<longrightarrow>
      attractMeasure ctx acs (snd (fold (attractStep ctx acs) [0..<n] (False, L))) < attractMeasure ctx acs L)"
proof (induction n)
  case 0
  show ?case by simp
next
  case (Suc n)
  obtain m L' where f: "fold (attractStep ctx acs) [0..<n] (False, L) = (m, L')"
    by (cases "fold (attractStep ctx acs) [0..<n] (False, L)")
  have n: "n < length acs" using Suc.prems by simp
  from Suc.IH Suc.prems f
  have ih: "attractMeasure ctx acs L' \<le> attractMeasure ctx acs L"
    "m \<Longrightarrow> attractMeasure ctx acs L' < attractMeasure ctx acs L"
    by simp_all
  show ?case
    using attractStep_measure [OF n, of ctx m L'] ih
    by (auto simp: f)
qed

lemma attractPass_measure:
  "attractPass ctx acs L = (True, L') \<Longrightarrow> attractMeasure ctx acs L' < attractMeasure ctx acs L"
  using attractFold_measure [of "length acs" acs ctx L]
  by (simp add: attractPass_def)

termination attractLoop
proof (relation "measure (\<lambda>(ctx, acs, L). attractMeasure ctx acs L)")
  show "wf (measure (\<lambda>(ctx, acs, L). attractMeasure ctx acs L))"
    by simp
next
  fix ctx acs L x anyMoved L'
  assume "x = attractPass ctx acs L" and "(anyMoved, L') = x" and "anyMoved"
  then have "attractPass ctx acs L = (True, L')"
    by simp
  then show "((ctx, acs, L'), (ctx, acs, L)) \<in> measure (\<lambda>(ctx, acs, L). attractMeasure ctx acs L)"
    by (simp add: attractPass_measure)
qed

declare attractLoop.simps [simp del]

section \<open>Theorems: manual offsets\<close>

lemma fold_upt_invariant:
  assumes "P L" and "\<And>i L. i < n \<Longrightarrow> P L \<Longrightarrow> P (step i L)"
  shows "P (fold step [0..<n] L)"
proof -
  have "m \<le> n \<Longrightarrow> P (fold step [0..<m] L)" for m
  proof (induction m)
    case 0
    show ?case using assms(1) by simp
  next
    case (Suc m)
    then show ?case using assms(2) [of m] by simp
  qed
  then show ?thesis by simp
qed

lemma aircraft_setAutomaticOffset_other:
  "ac' \<noteq> ac \<Longrightarrow> aircraft (setAutomaticOffset rs ac v) ac' = aircraft rs ac'"
  by (simp add: setAutomaticOffset_def)

lemma pinStep_pane: "pane (pinStep ctx acs i L) = pane L"
  by (simp add: pinStep_def Let_def)

lemma pinManual_pane: "pane (pinManual ctx acs L) = pane L"
  unfolding pinManual_def
  by (rule fold_upt_invariant [where P = "\<lambda>M. pane M = pane L"]) (simp_all add: pinStep_pane)

lemma pinStep_pinnedUpTo:
  assumes "m < length acs" and "pinnedUpTo acs m L0 L"
  shows "pinnedUpTo acs (Suc m) L0 (pinStep ctx acs m L)"
  using assms
  by (auto simp: pinnedUpTo_def pinStep_def Let_def hasManualOffset_def less_Suc_eq nth_list_update)

lemma pinManual_pinned:
  assumes "length (placed L0) = length acs"
  shows "pinnedUpTo acs (length acs) L0 (pinManual ctx acs L0)"
proof -
  have "m \<le> length acs \<Longrightarrow> pinnedUpTo acs m L0 (fold (pinStep ctx acs) [0..<m] L0)" for m
  proof (induction m)
    case 0
    show ?case using assms by (simp add: pinnedUpTo_def)
  next
    case (Suc m)
    then show ?case by (simp add: pinStep_pinnedUpTo)
  qed
  then show ?thesis by (simp add: pinManual_def)
qed

lemma manualInv_pinManual:
  "manualInv rs acs (pinManual ctx acs (initialLayout rs acs))"
  using pinManual_pinned [of "initialLayout rs acs" acs ctx]
  by (simp add: manualInv_def pinnedUpTo_def initialLayout_def)

lemma manualInv_unplaced_aircraft:
  assumes "manualInv rs0 acs L" and "i < length acs" and "\<not> placed L ! i"
    and "hasManualOffset (stateOf rs0 ac)"
  shows "ac \<noteq> acs ! i"
  using assms by (auto simp: manualInv_def)

lemma manualInv_greedyStep:
  assumes "i < length acs" and "manualInv rs0 acs L"
  shows "manualInv rs0 acs (greedyStep ctx acs i L)"
  using assms manualInv_unplaced_aircraft [OF assms(2,1)]
  by (auto simp: manualInv_def greedyStep_def Let_def nth_list_update aircraft_setAutomaticOffset_other)

lemma manualInv_startStep:
  assumes "i < length acs" and "manualInv rs0 acs L"
  shows "manualInv rs0 acs (startStep ctx acs i L)"
  using assms manualInv_unplaced_aircraft [OF assms(2,1)]
  by (auto simp: manualInv_def startStep_def Let_def aircraft_setAutomaticOffset_other)

lemma manualInv_initBoundsStep:
  assumes "i < length acs" and "manualInv rs0 acs L"
  shows "manualInv rs0 acs (initBoundsStep ctx acs i L)"
  using assms by (auto simp: manualInv_def initBoundsStep_def Let_def)

lemma manualInv_relaxStep:
  assumes "i < length acs" and "manualInv rs0 acs L"
  shows "manualInv rs0 acs (relaxStep ctx acs i L)"
  using assms manualInv_unplaced_aircraft [OF assms(2,1)]
  by (auto simp: manualInv_def relaxStep_def Let_def aircraft_setAutomaticOffset_other)

lemma manualInv_attractMove:
  assumes "i < length acs" and "manualInv rs0 acs L" and "attractAccepts ctx acs L i"
  shows "manualInv rs0 acs (attractMove ctx acs L i)"
  using assms manualInv_unplaced_aircraft [OF assms(2,1)]
  by (auto simp: manualInv_def attractMove_def attractAccepts_def aircraft_setAutomaticOffset_other)

lemma manualInv_relaxation:
  assumes "manualInv rs0 acs L"
  shows "manualInv rs0 acs (relaxation ctx acs L)"
  unfolding relaxation_def
proof (rule fold_upt_invariant [where P = "manualInv rs0 acs"])
  show "manualInv rs0 acs L" by (rule assms)
next
  fix iter M
  assume "manualInv rs0 acs M"
  then show "manualInv rs0 acs (relaxIter ctx acs M)"
    unfolding relaxIter_def
    by (rule fold_upt_invariant) (simp add: manualInv_relaxStep)
qed

lemma attractPass_invariant:
  assumes "P L"
    and "\<And>i M. i < length acs \<Longrightarrow> P M \<Longrightarrow> attractAccepts ctx acs M i \<Longrightarrow> P (attractMove ctx acs M i)"
  shows "P (snd (attractPass ctx acs L))"
  unfolding attractPass_def
proof (rule fold_upt_invariant [where P = "\<lambda>mL. P (snd mL)"])
  show "P (snd (False, L))" using assms(1) by simp
next
  fix i and mL :: "bool \<times> LayoutState"
  assume "i < length acs" and "P (snd mL)"
  then show "P (snd (attractStep ctx acs i mL))"
    using assms(2) [of i "snd mL"]
    by (cases mL) (simp add: attractStep_cases)
qed

lemma attractLoop_invariant:
  assumes "P L"
    and "\<And>i M. i < length acs \<Longrightarrow> P M \<Longrightarrow> attractAccepts ctx acs M i \<Longrightarrow> P (attractMove ctx acs M i)"
  shows "P (attractLoop ctx acs L)"
  using assms
proof (induction ctx acs L rule: attractLoop.induct)
  case (1 ctx acs L)
  obtain anyMoved L' where p: "attractPass ctx acs L = (anyMoved, L')"
    by (cases "attractPass ctx acs L")
  have "P (snd (attractPass ctx acs L))"
    using "1.prems" by (rule attractPass_invariant)
  then have l': "P L'" by (simp add: p)
  show ?case
  proof (cases anyMoved)
    case True
    have "P (attractLoop ctx acs L')"
      using p [symmetric] True l' "1.prems"(2) by (rule "1.IH" [OF refl])
    then show ?thesis
      using p True by (simp add: attractLoop.simps [of ctx acs L])
  next
    case False
    then show ?thesis
      using p l' by (simp add: attractLoop.simps [of ctx acs L])
  qed
qed

lemma manualInv_layoutAutomatic:
  "manualInv rs acs (layoutAutomatic ctx rs acs)"
proof -
  let ?L1 = "pinManual ctx acs (initialLayout rs acs)"
  have 1: "manualInv rs acs ?L1"
    by (rule manualInv_pinManual)
  have 2: "manualInv rs acs (greedyIdeal ctx acs ?L1)"
    unfolding greedyIdeal_def using 1
    by (rule fold_upt_invariant) (simp add: manualInv_greedyStep)
  have 3: "manualInv rs acs (startOffsets ctx acs (greedyIdeal ctx acs ?L1))"
    unfolding startOffsets_def using 2
    by (rule fold_upt_invariant) (simp add: manualInv_startStep)
  have 4: "manualInv rs acs (initBounds ctx acs (startOffsets ctx acs (greedyIdeal ctx acs ?L1)))"
    unfolding initBounds_def using 3
    by (rule fold_upt_invariant) (simp add: manualInv_initBoundsStep)
  have 5: "manualInv rs acs (relaxation ctx acs
      (initBounds ctx acs (startOffsets ctx acs (greedyIdeal ctx acs ?L1))))"
    using 4 by (rule manualInv_relaxation)
  show ?thesis
    unfolding layoutAutomatic_def using 5
    by (rule attractLoop_invariant) (simp add: manualInv_attractMove)
qed

lemma layoutAutomatic_manual_state:
  "hasManualOffset (stateOf rs ac) \<Longrightarrow> aircraft (pane (layoutAutomatic ctx rs acs)) ac = aircraft rs ac"
  using manualInv_layoutAutomatic [of rs acs ctx] by (simp add: manualInv_def)

lemma visible_selfOnlyStep: "visible (selfOnlyStep ctx a rs) x = visible rs x"
  by (simp add: selfOnlyStep_def visible_def setAutomaticOffset_def Let_def)

lemma selfOnlyStep_other:
  "a \<noteq> ac \<Longrightarrow> aircraft (selfOnlyStep ctx a rs) ac = aircraft rs ac"
  by (simp add: selfOnlyStep_def Let_def aircraft_setAutomaticOffset_other)

lemma selfOnlyStep_manual:
  assumes "aircraft rs ac = Some s" and "hasManualOffset s"
  shows "aircraft (selfOnlyStep ctx ac rs) ac =
           Some (if visible rs (acOf ctx ac) then s\<lparr>datablockAutomaticOffset := (0, 0)\<rparr> else s)"
  using assms
  by (simp add: selfOnlyStep_def Let_def stateOf_def hasManualOffset_def setAutomaticOffset_def)

lemma selfOnly_fold_manual:
  assumes "aircraft rs ac = Some s" and "hasManualOffset s"
  shows "aircraft (fold (selfOnlyStep ctx) xs rs) ac =
           Some (if ac \<in> set xs \<and> visible rs (acOf ctx ac)
                 then s\<lparr>datablockAutomaticOffset := (0, 0)\<rparr> else s)"
  using assms
proof (induction xs arbitrary: rs s)
  case Nil
  then show ?case by simp
next
  case (Cons a xs)
  show ?case
  proof (cases "a = ac")
    case False
    then have "aircraft (selfOnlyStep ctx a rs) ac = Some s"
      using Cons.prems(1) by (simp add: selfOnlyStep_other)
    from Cons.IH [OF this Cons.prems(2)] False show ?thesis
      by (simp add: visible_selfOnlyStep)
  next
    case True
    show ?thesis
    proof (cases "visible rs (acOf ctx ac)")
      case v: True
      have m: "hasManualOffset (s\<lparr>datablockAutomaticOffset := (0, 0)\<rparr>)"
        using Cons.prems(2) by (simp add: hasManualOffset_def)
      have "aircraft (selfOnlyStep ctx ac rs) ac = Some (s\<lparr>datablockAutomaticOffset := (0, 0)\<rparr>)"
        using selfOnlyStep_manual [OF Cons.prems] v by simp
      from Cons.IH [OF this m] True v show ?thesis
        by (simp add: visible_selfOnlyStep)
    next
      case nv: False
      have "aircraft (selfOnlyStep ctx ac rs) ac = Some s"
        using selfOnlyStep_manual [OF Cons.prems] nv by simp
      from Cons.IH [OF this Cons.prems(2)] True nv show ?thesis
        by (simp add: visible_selfOnlyStep)
    qed
  qed
qed

lemma WindowDatablockBounds_manual:
  "hasManualOffset t \<Longrightarrow>
   WindowDatablockBounds t p =
     \<lparr>p0 = add2f (add2f p (datablockManualOffset t)) (p0 (datablockBounds t)),
      p1 = add2f (add2f p (datablockManualOffset t)) (p1 (datablockBounds t))\<rparr>"
  by (simp add: WindowDatablockBounds_def hasManualOffset_def Offset_def add2f_def Let_def)

lemma set_rangeAircraft: "aircraft rs ac \<noteq> None \<Longrightarrow> ac \<in> set (rangeAircraft rs keys) \<longleftrightarrow> ac \<in> set keys"
  by (simp add: rangeAircraft_def)

text \<open>
  C1. Take an aircraft of the store whose manual offset is not zero. Its datablock bounds in
  the window are its local bounds moved to the track position plus the manual offset, the
  automatic offset playing no part. The automatic layout, run on any list of aircraft,
  leaves its scope state as it was, and so does \<open>layoutDatablocks\<close> in automatic mode. In
  self-only mode \<open>layoutDatablocks\<close> sets its automatic offset to zero when the loop over
  the store visits it and it is drawn (track not lost, altitude within the limits of the
  pane), and leaves the state alone otherwise. In both modes the datablock bounds in the
  window after the call are those before it.
\<close>

theorem manual_offset_box_is_fixed:
  assumes "aircraft rs ac = Some st" and "hasManualOffset st"
  shows "WindowDatablockBounds st p =
           \<lparr>p0 = add2f (add2f p (datablockManualOffset st)) (p0 (datablockBounds st)),
            p1 = add2f (add2f p (datablockManualOffset st)) (p1 (datablockBounds st))\<rparr> \<and>
         aircraft (pane (layoutAutomatic ctx rs acs)) ac = Some st \<and>
         (AutomaticDatablockLayout rs \<longrightarrow> aircraft (layoutDatablocks ctx keys rs) ac = Some st) \<and>
         (\<not> AutomaticDatablockLayout rs \<longrightarrow>
            aircraft (layoutDatablocks ctx keys rs) ac =
              Some (if ac \<in> set keys \<and> visible rs (acOf ctx ac)
                    then st\<lparr>datablockAutomaticOffset := (0, 0)\<rparr> else st)) \<and>
         WindowDatablockBounds (stateOf (layoutDatablocks ctx keys rs) ac) p = WindowDatablockBounds st p"
proof -
  have m: "hasManualOffset (stateOf rs ac)"
    using assms by (simp add: stateOf_def)
  have a: "aircraft (pane (layoutAutomatic ctx rs acs)) ac = Some st" for acs
    using layoutAutomatic_manual_state [OF m] assms(1) by simp
  have s: "\<not> AutomaticDatablockLayout rs \<Longrightarrow>
            aircraft (layoutDatablocks ctx keys rs) ac =
              Some (if ac \<in> set keys \<and> visible rs (acOf ctx ac)
                    then st\<lparr>datablockAutomaticOffset := (0, 0)\<rparr> else st)"
    using selfOnly_fold_manual [OF assms, of ctx "rangeAircraft rs keys"] assms(1)
    by (simp add: layoutDatablocks_def set_rangeAircraft)
  have z: "WindowDatablockBounds (st\<lparr>datablockAutomaticOffset := (0, 0)\<rparr>) p = WindowDatablockBounds st p"
    using assms(2) by (simp add: WindowDatablockBounds_def hasManualOffset_def Let_def)
  have w: "WindowDatablockBounds (stateOf (layoutDatablocks ctx keys rs) ac) p = WindowDatablockBounds st p"
  proof (cases "AutomaticDatablockLayout rs")
    case True
    then show ?thesis using a by (simp add: layoutDatablocks_def stateOf_def)
  next
    case False
    then show ?thesis using s z by (simp add: stateOf_def)
  qed
  show ?thesis
    using WindowDatablockBounds_manual [OF assms(2), of p] a s w
    by (simp add: layoutDatablocks_def)
qed

theorem manual_offset_box_is_fixed_witness:
  "aircraft paneL 3 = Some state1 \<and> hasManualOffset state1 \<and>
   WindowDatablockBounds state1 (300, 300) = \<lparr>p0 = (310, 286), p1 = (350, 310)\<rparr> \<and>
   aircraft (layoutDatablocks ctxL [1, 2, 3] paneL) 3 = Some state1 \<and>
   aircraft (layoutDatablocks ctxL [1, 2, 3] (paneL\<lparr>AutomaticDatablockLayout := False\<rparr>)) 3 =
     Some (state1\<lparr>datablockAutomaticOffset := (0, 0)\<rparr>) \<and>
   WindowDatablockBounds
     (stateOf (layoutDatablocks ctxL [1, 2, 3] (paneL\<lparr>AutomaticDatablockLayout := False\<rparr>)) 3) (300, 300) =
     \<lparr>p0 = (310, 286), p1 = (350, 310)\<rparr>"
proof -
  have t: "aircraft paneL 3 = Some state1"
    and t': "aircraft (paneL\<lparr>AutomaticDatablockLayout := False\<rparr>) 3 = Some state1"
    by (simp_all add: paneL_def)
  have m: "hasManualOffset state1"
    by (simp add: hasManualOffset_def state1_def)
  have au: "AutomaticDatablockLayout paneL"
    and se: "\<not> AutomaticDatablockLayout (paneL\<lparr>AutomaticDatablockLayout := False\<rparr>)"
    by (simp_all add: paneL_def)
  have v: "(3::nat) \<in> set [1, 2, 3] \<and> visible (paneL\<lparr>AutomaticDatablockLayout := False\<rparr>) (acOf ctxL 3)"
    by (simp add: visible_def paneL_def pane0_def ctxL_def worldL_def)
  have b: "\<lparr>p0 = add2f (add2f (300, 300) (datablockManualOffset state1)) (p0 (datablockBounds state1)),
            p1 = add2f (add2f (300, 300) (datablockManualOffset state1)) (p1 (datablockBounds state1))\<rparr> =
           \<lparr>p0 = (310, 286), p1 = (350, 310)\<rparr>"
    by (simp add: state1_def add2f_def)
  show ?thesis
    using manual_offset_box_is_fixed [OF t m, of "(300, 300)" ctxL "[]" "[1, 2, 3]"]
      manual_offset_box_is_fixed [OF t' m, of "(300, 300)" ctxL "[]" "[1, 2, 3]"]
      t m au se v
    unfolding b by simp
qed

section \<open>Theorems: placed boxes\<close>

lemma pinnedBoxes_pinStep:
  assumes "i < length acs" and "pinnedBoxes ctx rs0 acs L"
  shows "pinnedBoxes ctx rs0 acs (pinStep ctx acs i L)"
  using assms
  by (auto simp: pinnedBoxes_def pinStep_def Let_def hasManualOffset_def nth_list_update)

lemma pinnedBoxes_pinManual:
  "pinnedBoxes ctx rs acs (pinManual ctx acs (initialLayout rs acs))"
  unfolding pinManual_def
proof (rule fold_upt_invariant [where P = "pinnedBoxes ctx rs acs"])
  show "pinnedBoxes ctx rs acs (initialLayout rs acs)"
    by (simp add: pinnedBoxes_def initialLayout_def)
qed (rule pinnedBoxes_pinStep)

lemma placedInv_pinManual:
  "placedInv ctx rs acs (pinManual ctx acs (initialLayout rs acs))"
  using pinnedBoxes_pinManual [of ctx rs acs]
  by (auto simp: placedInv_def pinnedBoxes_def)

lemma allowedPlaced_iff:
  "allowedPlaced ctx L b \<longleftrightarrow>
     (\<forall>k<length (placedBounds L). placed L ! k \<longrightarrow> \<not> overlaps ctx b (placedBounds L ! k))"
  by (auto simp: allowedPlaced_def list_all_iff)

lemma manual_setAutomaticOffset:
  "datablockManualOffset (stateOf (setAutomaticOffset rs a v) ac) = datablockManualOffset (stateOf rs ac)"
  by (simp add: stateOf_setAutomaticOffset)

lemma greedy_box:
  assumes "\<not> hasManualOffset state"
  shows "Expand (WindowDatablockBounds (state\<lparr>datablockAutomaticOffset := offset\<rparr>) pw) 5 =
         Offset (Expand (WindowDatablockBounds state pw) 5) (sub2f offset (datablockAutomaticOffset state))"
  using assms
  by (simp add: WindowDatablockBounds_def hasManualOffset_def Expand_def Offset_def add2f_def sub2f_def Let_def)

lemma placedInv_bounds_update:
  assumes "placedInv ctx rs0 acs L" and "i < length acs" and "\<not> placed L ! i"
  shows "placedInv ctx rs0 acs (L\<lparr>placedBounds := (placedBounds L)[i := b]\<rparr>)"
  using assms by (auto simp: placedInv_def nth_list_update)

lemma placedInv_pane_update:
  assumes "placedInv ctx rs0 acs L" and "distinct acs" and "i < length acs" and "\<not> placed L ! i"
  shows "placedInv ctx rs0 acs (L\<lparr>pane := setAutomaticOffset (pane L) (acs ! i) v\<rparr>)"
proof -
  have other: "k < length acs \<Longrightarrow> placed L ! k \<Longrightarrow> acs ! k \<noteq> acs ! i" for k
    using assms(2-4) by (auto simp: nth_eq_iff_index_eq)
  show ?thesis
    using assms(1) other
    by (auto simp: placedInv_def stateOf_setAutomaticOffset)
qed

lemma placedInv_greedyStep:
  assumes sym: "\<forall>a b. overlaps ctx a b = overlaps ctx b a" and d: "distinct acs"
    and i: "i < length acs" and m: "manualInv rs0 acs L" and inv: "placedInv ctx rs0 acs L"
  shows "placedInv ctx rs0 acs (greedyStep ctx acs i L)"
proof (cases "placed L ! i")
  case True
  then show ?thesis using inv by (simp add: greedyStep_def)
next
  case np: False
  let ?state = "stateOf (pane L) (acs ! i)"
  let ?offset = "offsetSelfOnly (pane L) (acOf ctx (acs ! i)) ?state"
  let ?db = "Offset (Expand (WindowDatablockBounds ?state (windowPos ctx (acs ! i))) 5)
               (sub2f ?offset (datablockAutomaticOffset ?state))"
  show ?thesis
  proof (cases "allowedPlaced ctx L ?db")
    case False
    then show ?thesis using inv np by (simp add: greedyStep_def Let_def)
  next
    case al: True
    let ?L' = "L\<lparr>placed := (placed L)[i := True], placedBounds := (placedBounds L)[i := ?db],
                  pane := setAutomaticOffset (pane L) (acs ! i) ?offset\<rparr>"
    have step: "greedyStep ctx acs i L = ?L'"
      using np al by (simp add: greedyStep_def Let_def)
    have len: "length (placedBounds L) = length acs" and lenp: "length (placed L) = length acs"
      using inv m by (simp_all add: placedInv_def manualInv_def)
    have nm0: "\<not> hasManualOffset (stateOf rs0 (acs ! i))"
      using m i np by (auto simp: manualInv_def)
    have mo: "datablockManualOffset (stateOf (pane L) ac) = datablockManualOffset (stateOf rs0 ac)" for ac
      using inv by (simp add: placedInv_def)
    have nm: "\<not> hasManualOffset ?state"
      using nm0 mo [of "acs ! i"] by (simp add: hasManualOffset_def)
    have other: "k < length acs \<Longrightarrow> k \<noteq> i \<Longrightarrow> acs ! k \<noteq> acs ! i" for k
      using d i by (auto simp: nth_eq_iff_index_eq)
    have free: "k < length acs \<Longrightarrow> placed L ! k \<Longrightarrow> \<not> overlaps ctx ?db (placedBounds L ! k)" for k
      using al len by (simp add: allowedPlaced_iff)
    have box: "k < length acs \<Longrightarrow> placed L ! k \<Longrightarrow>
        placedBounds L ! k =
          Expand (WindowDatablockBounds (stateOf (pane L) (acs ! k)) (windowPos ctx (acs ! k))) 5" for k
      using inv by (simp add: placedInv_def)
    have sep: "a < length acs \<Longrightarrow> b < length acs \<Longrightarrow> a \<noteq> b \<Longrightarrow> placed L ! a \<Longrightarrow> placed L ! b \<Longrightarrow>
        \<not> (hasManualOffset (stateOf rs0 (acs ! a)) \<and> hasManualOffset (stateOf rs0 (acs ! b))) \<Longrightarrow>
        \<not> overlaps ctx (placedBounds L ! a) (placedBounds L ! b)" for a b
      using inv unfolding placedInv_def by blast
    have 1: "length (placedBounds ?L') = length acs"
      using len by simp
    have 2: "\<forall>ac. datablockManualOffset (stateOf (pane ?L') ac) = datablockManualOffset (stateOf rs0 ac)"
      using mo by (simp add: manual_setAutomaticOffset)
    have 3: "\<forall>k<length acs. placed ?L' ! k \<longrightarrow>
        placedBounds ?L' ! k =
          Expand (WindowDatablockBounds (stateOf (pane ?L') (acs ! k)) (windowPos ctx (acs ! k))) 5"
    proof (intro allI impI)
      fix k assume k: "k < length acs" and pk: "placed ?L' ! k"
      show "placedBounds ?L' ! k =
          Expand (WindowDatablockBounds (stateOf (pane ?L') (acs ! k)) (windowPos ctx (acs ! k))) 5"
      proof (cases "k = i")
        case True
        then show ?thesis
          using i len greedy_box [OF nm, of ?offset "windowPos ctx (acs ! i)"]
          by (simp add: stateOf_setAutomaticOffset)
      next
        case False
        then have "placed L ! k" using pk by simp
        then show ?thesis
          using False k box [of k] other [of k] by (simp add: stateOf_setAutomaticOffset)
      qed
    qed
    have 4: "\<forall>a<length acs. \<forall>b<length acs.
        a \<noteq> b \<and> placed ?L' ! a \<and> placed ?L' ! b \<and>
        \<not> (hasManualOffset (stateOf rs0 (acs ! a)) \<and> hasManualOffset (stateOf rs0 (acs ! b))) \<longrightarrow>
        \<not> overlaps ctx (placedBounds ?L' ! a) (placedBounds ?L' ! b)"
    proof (intro allI impI, elim conjE)
      fix a b
      assume a: "a < length acs" and b: "b < length acs" and ab: "a \<noteq> b"
        and pa: "placed ?L' ! a" and pb: "placed ?L' ! b"
        and nb: "\<not> (hasManualOffset (stateOf rs0 (acs ! a)) \<and> hasManualOffset (stateOf rs0 (acs ! b)))"
      consider (ai) "a = i" | (bi) "b = i" | (none) "a \<noteq> i" "b \<noteq> i"
        by blast
      then show "\<not> overlaps ctx (placedBounds ?L' ! a) (placedBounds ?L' ! b)"
      proof cases
        case ai
        then have "placed L ! b" using pb ab by simp
        then show ?thesis using ai ab b i len free [of b] by simp
      next
        case bi
        then have "placed L ! a" using pa ab by simp
        then have "\<not> overlaps ctx ?db (placedBounds L ! a)" using a by (rule free [rotated])
        then show ?thesis using bi ab i len sym by simp
      next
        case none
        then have "placed L ! a" "placed L ! b" using pa pb by simp_all
        then show ?thesis using none sep [OF a b ab _ _ nb] by simp
      qed
    qed
    show ?thesis
      unfolding step placedInv_def using 1 2 3 4 by blast
  qed
qed

lemma manualInv_placedInv_greedyIdeal:
  assumes "\<forall>a b. overlaps ctx a b = overlaps ctx b a" and "distinct acs"
    and "manualInv rs0 acs L \<and> placedInv ctx rs0 acs L"
  shows "manualInv rs0 acs (greedyIdeal ctx acs L) \<and> placedInv ctx rs0 acs (greedyIdeal ctx acs L)"
  unfolding greedyIdeal_def using assms(3)
  by (rule fold_upt_invariant) (simp add: manualInv_greedyStep placedInv_greedyStep [OF assms(1,2)])

lemma placedInv_startStep:
  assumes "distinct acs" and "i < length acs" and "placedInv ctx rs0 acs L"
  shows "placedInv ctx rs0 acs (startStep ctx acs i L)"
  using placedInv_pane_update [OF assms(3,1,2)] assms(3)
  by (simp add: startStep_def Let_def)

lemma placedInv_initBoundsStep:
  assumes "i < length acs" and "placedInv ctx rs0 acs L"
  shows "placedInv ctx rs0 acs (initBoundsStep ctx acs i L)"
  using placedInv_bounds_update [OF assms(2,1)] assms(2)
  by (simp add: initBoundsStep_def Let_def)

lemma placedInv_relaxStep:
  assumes "distinct acs" and "i < length acs" and "placedInv ctx rs0 acs L"
  shows "placedInv ctx rs0 acs (relaxStep ctx acs i L)"
proof (cases "placed L ! i")
  case True
  then show ?thesis using assms(3) by (simp add: relaxStep_def)
next
  case False
  let ?v = "add2f (datablockAutomaticOffset (stateOf (pane L) (acs ! i)))
              (clampForce (repulsion ctx L i (placedBounds L ! i)))"
  have "placedInv ctx rs0 acs (L\<lparr>pane := setAutomaticOffset (pane L) (acs ! i) ?v\<rparr>)"
    using assms(3,1,2) False by (rule placedInv_pane_update)
  then show ?thesis
    using False by (simp add: relaxStep_def Let_def)
qed

lemma placedInv_relaxation:
  assumes "distinct acs" and "placedInv ctx rs0 acs L"
  shows "placedInv ctx rs0 acs (relaxation ctx acs L)"
  unfolding relaxation_def
proof (rule fold_upt_invariant [where P = "placedInv ctx rs0 acs"])
  show "placedInv ctx rs0 acs L" by (rule assms(2))
next
  fix iter M
  assume "placedInv ctx rs0 acs M"
  then show "placedInv ctx rs0 acs (relaxIter ctx acs M)"
    unfolding relaxIter_def
    by (rule fold_upt_invariant) (simp add: placedInv_relaxStep [OF assms(1)])
qed

lemma placedInv_attractMove:
  assumes "distinct acs" and "i < length acs" and "placedInv ctx rs0 acs L"
    and "attractAccepts ctx acs L i"
  shows "placedInv ctx rs0 acs (attractMove ctx acs L i)"
proof -
  have np: "\<not> placed L ! i"
    using assms(4) by (simp add: attractAccepts_def)
  let ?v = "add2f (datablockAutomaticOffset (stateOf (pane L) (acs ! i))) (normalize2f (goBack ctx acs L i))"
  let ?L1 = "L\<lparr>pane := setAutomaticOffset (pane L) (acs ! i) ?v\<rparr>"
  have 1: "placedInv ctx rs0 acs ?L1"
    using assms(3,1,2) np by (rule placedInv_pane_update)
  have np1: "\<not> placed ?L1 ! i" using np by simp
  have eq: "attractMove ctx acs L i =
      ?L1\<lparr>placedBounds := (placedBounds ?L1)
          [i := Offset (placedBounds L ! i) (normalize2f (goBack ctx acs L i))]\<rparr>"
    by (cases L) (simp add: attractMove_def)
  show ?thesis
    unfolding eq using 1 assms(2) np1 by (rule placedInv_bounds_update)
qed

lemma placedInv_layoutAutomatic:
  assumes sym: "\<forall>a b. overlaps ctx a b = overlaps ctx b a" and d: "distinct acs"
  shows "placedInv ctx rs acs (layoutAutomatic ctx rs acs)"
proof -
  let ?L1 = "pinManual ctx acs (initialLayout rs acs)"
  have 1: "manualInv rs acs ?L1 \<and> placedInv ctx rs acs ?L1"
    by (simp add: manualInv_pinManual placedInv_pinManual)
  have 2: "placedInv ctx rs acs (greedyIdeal ctx acs ?L1)"
    using manualInv_placedInv_greedyIdeal [OF sym d 1] by simp
  have 3: "placedInv ctx rs acs (startOffsets ctx acs (greedyIdeal ctx acs ?L1))"
    unfolding startOffsets_def using 2
    by (rule fold_upt_invariant) (simp add: placedInv_startStep [OF d])
  have 4: "placedInv ctx rs acs (initBounds ctx acs (startOffsets ctx acs (greedyIdeal ctx acs ?L1)))"
    unfolding initBounds_def using 3
    by (rule fold_upt_invariant) (simp add: placedInv_initBoundsStep)
  have 5: "placedInv ctx rs acs (relaxation ctx acs
      (initBounds ctx acs (startOffsets ctx acs (greedyIdeal ctx acs ?L1))))"
    using d 4 by (rule placedInv_relaxation)
  show ?thesis
    unfolding layoutAutomatic_def using 5
    by (rule attractLoop_invariant) (simp add: placedInv_attractMove [OF d])
qed

section \<open>Theorems: placed boxes do not overlap\<close>

lemma placed_startStep: "placed (startStep ctx acs i L) = placed L"
  by (simp add: startStep_def Let_def)

lemma placed_initBoundsStep: "placed (initBoundsStep ctx acs i L) = placed L"
  by (simp add: initBoundsStep_def Let_def)

lemma placed_relaxStep: "placed (relaxStep ctx acs i L) = placed L"
  by (simp add: relaxStep_def Let_def)

lemma placed_startOffsets: "placed (startOffsets ctx acs L) = placed L"
  unfolding startOffsets_def
  by (rule fold_upt_invariant [where P = "\<lambda>M :: LayoutState. placed M = placed L"])
     (simp_all add: placed_startStep)

lemma placed_initBounds: "placed (initBounds ctx acs L) = placed L"
  unfolding initBounds_def
  by (rule fold_upt_invariant [where P = "\<lambda>M :: LayoutState. placed M = placed L"])
     (simp_all add: placed_initBoundsStep)

lemma placed_relaxIter: "placed (relaxIter ctx acs L) = placed L"
  unfolding relaxIter_def
  by (rule fold_upt_invariant [where P = "\<lambda>M :: LayoutState. placed M = placed L"])
     (simp_all add: placed_relaxStep)

lemma placed_relaxation: "placed (relaxation ctx acs L) = placed L"
  unfolding relaxation_def
  by (rule fold_upt_invariant [where P = "\<lambda>M :: LayoutState. placed M = placed L"])
     (simp_all add: placed_relaxIter)

lemma placed_attractLoop: "placed (attractLoop ctx acs L) = placed L"
  by (rule attractLoop_invariant [where P = "\<lambda>M :: LayoutState. placed M = placed L"])
     (simp_all add: placed_attractMove)

lemma placed_layoutAutomatic:
  "placed (layoutAutomatic ctx rs acs) =
     placed (greedyIdeal ctx acs (pinManual ctx acs (initialLayout rs acs)))"
  by (simp add: layoutAutomatic_def placed_attractLoop placed_relaxation placed_initBounds
      placed_startOffsets)

text \<open>
  C3, as the code has it. After the automatic layout of pairwise different aircraft, with an
  overlap test that does not depend on the order of its two boxes: two aircraft that are
  both marked placed, and not both placed by their manual offsets, have padded datablock
  bounds in the window that do not overlap; these bounds are the ones the layout recorded
  for them.
\<close>

theorem placed_boxes_do_not_overlap:
  assumes "\<forall>a b. overlaps ctx a b = overlaps ctx b a" and "distinct acs"
    and "i < length acs" and "j < length acs" and "i \<noteq> j"
    and "placed (layoutAutomatic ctx rs acs) ! i" and "placed (layoutAutomatic ctx rs acs) ! j"
    and "\<not> (hasManualOffset (stateOf rs (acs ! i)) \<and> hasManualOffset (stateOf rs (acs ! j)))"
  shows "\<not> overlaps ctx
           (Expand (WindowDatablockBounds (stateOf (pane (layoutAutomatic ctx rs acs)) (acs ! i))
                      (windowPos ctx (acs ! i))) 5)
           (Expand (WindowDatablockBounds (stateOf (pane (layoutAutomatic ctx rs acs)) (acs ! j))
                      (windowPos ctx (acs ! j))) 5) \<and>
         placedBounds (layoutAutomatic ctx rs acs) ! i =
           Expand (WindowDatablockBounds (stateOf (pane (layoutAutomatic ctx rs acs)) (acs ! i))
                      (windowPos ctx (acs ! i))) 5"
proof -
  let ?L = "layoutAutomatic ctx rs acs"
  have inv: "placedInv ctx rs acs ?L"
    using assms(1,2) by (rule placedInv_layoutAutomatic)
  have bi: "placedBounds ?L ! i =
      Expand (WindowDatablockBounds (stateOf (pane ?L) (acs ! i)) (windowPos ctx (acs ! i))) 5"
    and bj: "placedBounds ?L ! j =
      Expand (WindowDatablockBounds (stateOf (pane ?L) (acs ! j)) (windowPos ctx (acs ! j))) 5"
    using inv assms(3,4,6,7) unfolding placedInv_def by blast+
  have "\<not> overlaps ctx (placedBounds ?L ! i) (placedBounds ?L ! j)"
    using inv assms(3-8) unfolding placedInv_def by blast
  then show ?thesis
    using bi bj by simp
qed

lemma Overlaps_sym: "\<forall>a b. overlaps ctxL a b = overlaps ctxL b a"
  by (auto simp: ctxL_def Overlaps_def)

lemma greedy_scene:
  "placed (greedyIdeal ctxL [1, 3] (pinManual ctxL [1, 3] (initialLayout paneL [1, 3]))) = [True, True]"
  by (simp add: greedyIdeal_def pinManual_def initialLayout_def upt_rec pinStep_def greedyStep_def
      stateOf_def paneL_def pane0_def state1_def info0_def zeroScopeState_def Let_def
      allowedPlaced_def WindowDatablockBounds_def windowPos_def ctxL_def worldL_def
      offsetSelfOnly_def datablockConnectP_def Expand_def Offset_def Center_def Overlaps_def
      add2f_def sub2f_def scale2f_def normalize2f_def length2f_def setAutomaticOffset_def)

theorem placed_boxes_do_not_overlap_witness:
  "distinct [1 :: acid, 3] \<and>
   placed (layoutAutomatic ctxL paneL [1, 3]) = [True, True] \<and>
   \<not> hasManualOffset (stateOf paneL 1) \<and> hasManualOffset (stateOf paneL 3) \<and>
   \<not> Overlaps
       (Expand (WindowDatablockBounds (stateOf (pane (layoutAutomatic ctxL paneL [1, 3])) 1) (100, 100)) 5)
       (Expand (WindowDatablockBounds (stateOf (pane (layoutAutomatic ctxL paneL [1, 3])) 3) (300, 300)) 5)"
proof -
  have d: "distinct [1 :: acid, 3]" by simp
  have p: "placed (layoutAutomatic ctxL paneL [1, 3]) = [True, True]"
    unfolding placed_layoutAutomatic by (rule greedy_scene)
  have i: "(0::nat) < length [1 :: acid, 3]" and j: "(1::nat) < length [1 :: acid, 3]"
    and ij: "(0::nat) \<noteq> 1"
    by simp_all
  have pi: "placed (layoutAutomatic ctxL paneL [1, 3]) ! 0"
    and pj: "placed (layoutAutomatic ctxL paneL [1, 3]) ! 1"
    unfolding p by simp_all
  have m1: "\<not> hasManualOffset (stateOf paneL 1)" and m3: "hasManualOffset (stateOf paneL 3)"
    by (simp_all add: hasManualOffset_def stateOf_def paneL_def info0_def zeroScopeState_def state1_def)
  have nb: "\<not> (hasManualOffset (stateOf paneL ([1, 3] ! 0)) \<and> hasManualOffset (stateOf paneL ([1, 3] ! 1)))"
    using m1 by simp
  have w: "windowPos ctxL (Suc 0) = (100, 100)" "windowPos ctxL 3 = (300, 300)" "overlaps ctxL = Overlaps"
    by (simp_all add: windowPos_def ctxL_def worldL_def)
  show ?thesis
    using placed_boxes_do_not_overlap [OF Overlaps_sym d i j ij pi pj nb] d m1 m3
    unfolding p by (simp add: w)
qed

text \<open>
  C3 as stated fails for two aircraft that are both manually placed: the first pass marks
  both placed wherever their boxes are. Here two aircraft at the same window position carry
  the same manual offset; after the layout both are placed and their padded boxes overlap.
\<close>

theorem manually_placed_boxes_overlap_counterexample:
  "placed (layoutAutomatic ctxL paneM [3, 4]) ! 0 \<and>
   placed (layoutAutomatic ctxL paneM [3, 4]) ! 1 \<and>
   Overlaps
     (Expand (WindowDatablockBounds (stateOf (pane (layoutAutomatic ctxL paneM [3, 4])) 3)
                (windowPos ctxL 3)) 5)
     (Expand (WindowDatablockBounds (stateOf (pane (layoutAutomatic ctxL paneM [3, 4])) 4)
                (windowPos ctxL 4)) 5)"
proof -
  have m: "hasManualOffset (stateOf paneM 3)" "hasManualOffset (stateOf paneM 4)"
    by (simp_all add: hasManualOffset_def stateOf_def paneM_def state1_def)
  have s: "stateOf (pane (layoutAutomatic ctxL paneM [3, 4])) 3 = state1"
    "stateOf (pane (layoutAutomatic ctxL paneM [3, 4])) 4 = state1"
    using layoutAutomatic_manual_state [OF m(1), of ctxL "[3, 4]"]
      layoutAutomatic_manual_state [OF m(2), of ctxL "[3, 4]"]
    by (simp_all add: stateOf_def paneM_def)
  have p: "placed (layoutAutomatic ctxL paneM [3, 4]) ! 0 \<and> placed (layoutAutomatic ctxL paneM [3, 4]) ! 1"
    using manualInv_layoutAutomatic [of paneM "[3, 4]" ctxL] m
    by (simp add: manualInv_def less_Suc_eq)
  have o: "Overlaps (Expand (WindowDatablockBounds state1 (windowPos ctxL 3)) 5)
                    (Expand (WindowDatablockBounds state1 (windowPos ctxL 4)) 5)"
    by (simp add: Overlaps_def Expand_def WindowDatablockBounds_def Offset_def add2f_def state1_def
        windowPos_def ctxL_def worldL_def Let_def)
  show ?thesis
    using p o by (simp add: s)
qed

section \<open>Theorems: the attraction loop ends\<close>

lemma attractPass_unmoved_fold:
  "fst (fold (attractStep ctx acs) [0..<n] (False, L)) \<or>
   snd (fold (attractStep ctx acs) [0..<n] (False, L)) = L"
proof (rule fold_upt_invariant [where P = "\<lambda>mL. fst mL \<or> snd mL = L"])
  show "fst (False, L) \<or> snd (False, L) = L" by simp
next
  fix i and mL :: "bool \<times> LayoutState"
  assume "fst mL \<or> snd mL = L"
  then show "fst (attractStep ctx acs i mL) \<or> snd (attractStep ctx acs i mL) = L"
    by (cases mL) (auto simp: attractStep_cases)
qed

lemma attractPass_unmoved:
  "\<not> fst (attractPass ctx acs L) \<Longrightarrow> attractPass ctx acs L = (False, L)"
  using attractPass_unmoved_fold [of ctx acs "length acs" L]
  by (auto simp: attractPass_def prod_eq_iff)

lemma attractLoop_unmoved:
  "\<not> fst (attractPass ctx acs L) \<Longrightarrow> attractLoop ctx acs L = L"
  using attractPass_unmoved [of ctx acs L]
  by (simp add: attractLoop.simps [of ctx acs L])

lemma attractLoop_moved:
  "fst (attractPass ctx acs L) \<Longrightarrow>
   attractLoop ctx acs L = attractLoop ctx acs (snd (attractPass ctx acs L))"
  by (simp add: attractLoop.simps [of ctx acs L] split_beta)

lemma attractLoop_fixed:
  "attractPass ctx acs (attractLoop ctx acs L) = (False, attractLoop ctx acs L)"
proof (induction ctx acs L rule: attractLoop.induct)
  case (1 ctx acs L)
  show ?case
  proof (cases "fst (attractPass ctx acs L)")
    case True
    have "attractPass ctx acs (attractLoop ctx acs (snd (attractPass ctx acs L))) =
          (False, attractLoop ctx acs (snd (attractPass ctx acs L)))"
      using True by (intro "1.IH" [of "attractPass ctx acs L"]) (simp_all add: prod_eq_iff)
    then show ?thesis
      by (simp add: attractLoop_moved [OF True])
  next
    case False
    then show ?thesis
      by (simp add: attractLoop_unmoved attractPass_unmoved)
  qed
qed

lemma attractFuel_enough:
  "attractMeasure ctx acs L \<le> n \<Longrightarrow> attractFuel (Suc n) ctx acs L = Some (attractLoop ctx acs L)"
proof (induction n arbitrary: L)
  case 0
  have "\<not> fst (attractPass ctx acs L)"
  proof
    assume "fst (attractPass ctx acs L)"
    then have "attractMeasure ctx acs (snd (attractPass ctx acs L)) < attractMeasure ctx acs L"
      by (intro attractPass_measure) (simp add: prod_eq_iff)
    then show False using "0.prems" by simp
  qed
  then show ?case
    by (simp add: attractLoop_unmoved attractPass_unmoved)
next
  case (Suc n)
  show ?case
  proof (cases "fst (attractPass ctx acs L)")
    case True
    then have "attractMeasure ctx acs (snd (attractPass ctx acs L)) < attractMeasure ctx acs L"
      by (intro attractPass_measure) (simp add: prod_eq_iff)
    then have "attractMeasure ctx acs (snd (attractPass ctx acs L)) \<le> n"
      using Suc.prems by simp
    then have "attractFuel (Suc n) ctx acs (snd (attractPass ctx acs L)) =
               Some (attractLoop ctx acs (snd (attractPass ctx acs L)))"
      by (rule Suc.IH)
    then show ?thesis
      using True attractLoop_moved [OF True]
      by (simp add: split_beta del: attractFuel.simps(2)) (simp add: split_beta)
  next
    case False
    then show ?thesis
      by (simp add: attractLoop_unmoved attractPass_unmoved)
  qed
qed

lemma length2f_normalize2f: "length2f g \<noteq> 0 \<Longrightarrow> length2f (normalize2f g) = 1"
  using length2f_nonneg [of g] by (simp add: normalize2f_def length2f_scale)

lemma allowedOthers_iff:
  "allowedOthers ctx L idx b \<longleftrightarrow>
     (\<forall>j<length (placedBounds L). j \<noteq> idx \<longrightarrow> \<not> overlaps ctx b (placedBounds L ! j))"
  by (auto simp: allowedOthers_def list_all_iff)

text \<open>
  C8. In a pass of the attraction back, the visit of a box either leaves everything as it
  is, or (when the box is unplaced, at least one unit from its ideal offset, and the box
  moved by the unit vector towards the ideal offset overlaps no other box of the slice)
  moves the box and the automatic offset by that unit vector, which brings the automatic
  offset exactly one unit closer to the ideal offset. A pass that moves a box decreases the
  sum, over the unplaced boxes, of the whole units of distance to the ideal offset; a pass
  that moves nothing ends the loop. So the loop ends after at most that sum plus one passes,
  in a state in which a pass moves nothing. (Offsets are real numbers here.)
\<close>

theorem attraction_back_terminates:
  "attractStep ctx acs i (m, L) =
     (if attractAccepts ctx acs L i then (True, attractMove ctx acs L i) else (m, L)) \<and>
   (attractAccepts ctx acs L i \<longrightarrow>
      \<not> placed L ! i \<and>
      (\<forall>j<length (placedBounds L). j \<noteq> i \<longrightarrow>
         \<not> overlaps ctx (Offset (placedBounds L ! i) (normalize2f (goBack ctx acs L i)))
                        (placedBounds L ! j)) \<and>
      length2f (normalize2f (goBack ctx acs L i)) = 1 \<and>
      datablockAutomaticOffset (stateOf (pane (attractMove ctx acs L i)) (acs ! i)) =
        add2f (datablockAutomaticOffset (stateOf (pane L) (acs ! i))) (normalize2f (goBack ctx acs L i)) \<and>
      length2f (goBack ctx acs (attractMove ctx acs L i) i) = length2f (goBack ctx acs L i) - 1) \<and>
   (fst (attractPass ctx acs L) \<longrightarrow>
      attractMeasure ctx acs (snd (attractPass ctx acs L)) < attractMeasure ctx acs L) \<and>
   (\<not> fst (attractPass ctx acs L) \<longrightarrow> attractLoop ctx acs L = L) \<and>
   attractFuel (Suc (attractMeasure ctx acs L)) ctx acs L = Some (attractLoop ctx acs L) \<and>
   attractPass ctx acs (attractLoop ctx acs L) = (False, attractLoop ctx acs L)"
proof -
  have step: "attractAccepts ctx acs L i \<Longrightarrow>
      \<not> placed L ! i \<and>
      (\<forall>j<length (placedBounds L). j \<noteq> i \<longrightarrow>
         \<not> overlaps ctx (Offset (placedBounds L ! i) (normalize2f (goBack ctx acs L i)))
                        (placedBounds L ! j)) \<and>
      length2f (normalize2f (goBack ctx acs L i)) = 1 \<and>
      datablockAutomaticOffset (stateOf (pane (attractMove ctx acs L i)) (acs ! i)) =
        add2f (datablockAutomaticOffset (stateOf (pane L) (acs ! i))) (normalize2f (goBack ctx acs L i)) \<and>
      length2f (goBack ctx acs (attractMove ctx acs L i) i) = length2f (goBack ctx acs L i) - 1"
  proof -
    assume a: "attractAccepts ctx acs L i"
    then have one: "1 \<le> length2f (goBack ctx acs L i)"
      by (simp add: attractAccepts_def)
    then have nz: "length2f (goBack ctx acs L i) \<noteq> 0" by simp
    have off: "datablockAutomaticOffset (stateOf (pane (attractMove ctx acs L i)) (acs ! i)) =
        add2f (datablockAutomaticOffset (stateOf (pane L) (acs ! i))) (normalize2f (goBack ctx acs L i))"
      by (simp add: attractMove_def stateOf_setAutomaticOffset)
    have closer: "length2f (goBack ctx acs (attractMove ctx acs L i) i) = length2f (goBack ctx acs L i) - 1"
      using unit_step_closer [OF one] by (simp add: goBack_attractMove)
    have free: "\<not> placed L ! i \<and>
      (\<forall>j<length (placedBounds L). j \<noteq> i \<longrightarrow>
         \<not> overlaps ctx (Offset (placedBounds L ! i) (normalize2f (goBack ctx acs L i)))
                        (placedBounds L ! j))"
      using a by (simp add: attractAccepts_def allowedOthers_iff)
    show ?thesis
      using free length2f_normalize2f [OF nz] off closer by blast
  qed
  have pass: "fst (attractPass ctx acs L) \<Longrightarrow>
      attractMeasure ctx acs (snd (attractPass ctx acs L)) < attractMeasure ctx acs L"
    by (intro attractPass_measure) (simp add: prod_eq_iff)
  show ?thesis
    using step pass attractLoop_unmoved [of ctx acs L] attractFuel_enough [of ctx acs L, OF order_refl]
      attractLoop_fixed [of ctx acs L] attractStep_cases [of ctx acs i m L]
    by blast
qed

lemma goBack_layoutA: "goBack ctxL [2] layoutA 0 = (-3, 0)"
proof -
  have l: "length2f (5, 12) = 13"
    by (simp add: length2f_def)
  have "offsetSelfOnly paneA (worldL 2) (info0\<lparr>datablockAutomaticOffset := (80 / 13 + 3, 192 / 13)\<rparr>) =
        (80 / 13, 192 / 13)"
    by (simp add: offsetSelfOnly_def datablockConnectP_def paneA_def paneL_def pane0_def worldL_def
        info0_def zeroScopeState_def Expand_def Center_def scale2f_def add2f_def normalize2f_def l Let_def)
  then show ?thesis
    by (simp add: goBack_def layoutA_def stateOf_def paneA_def ctxL_def sub2f_def Let_def)
qed

theorem attraction_back_terminates_witness:
  "attractAccepts ctxL [2] layoutA 0 \<and>
   goBack ctxL [2] layoutA 0 = (-3, 0) \<and>
   length2f (goBack ctxL [2] (attractMove ctxL [2] layoutA 0) 0) = 2 \<and>
   attractMeasure ctxL [2] layoutA = 3 \<and>
   attractFuel 4 ctxL [2] layoutA = Some (attractLoop ctxL [2] layoutA)"
proof -
  have l: "length2f (goBack ctxL [2] layoutA 0) = 3"
    by (simp add: goBack_layoutA length2f_def)
  have a: "attractAccepts ctxL [2] layoutA 0"
    by (simp add: attractAccepts_def l) (simp add: layoutA_def allowedOthers_def)
  have m: "attractMeasure ctxL [2] layoutA = 3"
    by (simp add: attractMeasure_def l) (simp add: layoutA_def)
  have f: "(4::nat) = Suc 3" by simp
  show ?thesis
    using attraction_back_terminates [of ctxL "[2]" 0 False layoutA] a
    unfolding m l f by (simp add: goBack_layoutA)
qed

section \<open>Theorems: the relaxation\<close>

lemma offsetSelfOnly_scene:
  "offsetSelfOnly (rs\<lparr>RotationAngle := 0\<rparr>) (worldL n) (info0\<lparr>datablockAutomaticOffset := v\<rparr>) = (80 / 13, 192 / 13)"
proof -
  have l: "length2f (5, 12) = 13"
    by (simp add: length2f_def)
  show ?thesis
    by (simp add: offsetSelfOnly_def datablockConnectP_def worldL_def
        info0_def zeroScopeState_def Expand_def Center_def scale2f_def add2f_def normalize2f_def l Let_def)
qed

lemma layoutR_eval:
  "placed layoutR = [True, False] \<and>
   placedBounds layoutR =
     [\<lparr>p0 = (95 + 80 / 13, 71 + 192 / 13), p1 = (145 + 80 / 13, 105 + 192 / 13)\<rparr>,
      \<lparr>p0 = (105 + 80 / 13, 71 + 192 / 13), p1 = (155 + 80 / 13, 105 + 192 / 13)\<rparr>] \<and>
   datablockAutomaticOffset (stateOf (pane layoutR) 2) = (80 / 13, 192 / 13)"
  by (simp add: layoutR_def greedyIdeal_def pinManual_def startOffsets_def initBounds_def initialLayout_def upt_rec pinStep_def greedyStep_def startStep_def initBoundsStep_def
      stateOf_def paneL_def pane0_def state1_def info0_def zeroScopeState_def Let_def
      allowedPlaced_def WindowDatablockBounds_def windowPos_def ctxL_def worldL_def
      offsetSelfOnly_def datablockConnectP_def Expand_def Offset_def Center_def Overlaps_def
      add2f_def sub2f_def scale2f_def normalize2f_def length2f_def setAutomaticOffset_def)

lemma placedBounds_relaxStep: "placedBounds (relaxStep ctx acs i L) = placedBounds L"
  by (simp add: relaxStep_def Let_def)

lemma placedBounds_relaxIter: "placedBounds (relaxIter ctx acs L) = placedBounds L"
  unfolding relaxIter_def
  by (rule fold_upt_invariant [where P = "\<lambda>M :: LayoutState. placedBounds M = placedBounds L"])
     (simp_all add: placedBounds_relaxStep)

lemma placedBounds_relaxation: "placedBounds (relaxation ctx acs L) = placedBounds L"
  unfolding relaxation_def
  by (rule fold_upt_invariant [where P = "\<lambda>M :: LayoutState. placedBounds M = placedBounds L"])
     (simp_all add: placedBounds_relaxIter)

lemma relaxIter_scene:
  assumes "placed L = [True, False]"
    and "placedBounds L =
     [\<lparr>p0 = (95 + 80 / 13, 71 + 192 / 13), p1 = (145 + 80 / 13, 105 + 192 / 13)\<rparr>,
      \<lparr>p0 = (105 + 80 / 13, 71 + 192 / 13), p1 = (155 + 80 / 13, 105 + 192 / 13)\<rparr>]"
  shows "clampForce (repulsion ctxL L 1 (placedBounds L ! 1)) = (2, 0) \<and>
         datablockAutomaticOffset (stateOf (pane (relaxIter ctxL [1, 2] L)) 2) =
           add2f (datablockAutomaticOffset (stateOf (pane L) 2)) (2, 0)"
proof -
  have f: "clampForce (repulsion ctxL L 1 (placedBounds L ! 1)) = (2, 0)"
    using assms
    by (simp add: clampForce_def repulsion_def iterScale_def upt_rec ctxL_def Overlaps_def
        Center_def sub2f_def add2f_def scale2f_def normalize2f_def length2f_def Let_def)
  have "relaxIter ctxL [1, 2] L = relaxStep ctxL [1, 2] 1 L"
    using assms(1) by (simp add: relaxIter_def upt_rec relaxStep_def)
  then show ?thesis
    using assms(1) f
    by (simp add: relaxStep_def Let_def stateOf_setAutomaticOffset)
qed

lemma relaxation_scene_steps:
  assumes "placed L = [True, False]"
    and "placedBounds L =
     [\<lparr>p0 = (95 + 80 / 13, 71 + 192 / 13), p1 = (145 + 80 / 13, 105 + 192 / 13)\<rparr>,
      \<lparr>p0 = (105 + 80 / 13, 71 + 192 / 13), p1 = (155 + 80 / 13, 105 + 192 / 13)\<rparr>]"
  shows "placed (fold (\<lambda>iter. relaxIter ctxL [1, 2]) [0..<n] L) = [True, False] \<and>
         placedBounds (fold (\<lambda>iter. relaxIter ctxL [1, 2]) [0..<n] L) = placedBounds L \<and>
         datablockAutomaticOffset (stateOf (pane (fold (\<lambda>iter. relaxIter ctxL [1, 2]) [0..<n] L)) 2) =
           add2f (datablockAutomaticOffset (stateOf (pane L) 2)) (2 * real n, 0)"
proof (induction n)
  case 0
  show ?case using assms(1) by (simp add: add2f_def)
next
  case (Suc n)
  let ?M = "fold (\<lambda>iter. relaxIter ctxL [1, 2]) [0..<n] L"
  have p: "placed ?M = [True, False]" and b: "placedBounds ?M = placedBounds L"
    and o: "datablockAutomaticOffset (stateOf (pane ?M) 2) =
           add2f (datablockAutomaticOffset (stateOf (pane L) 2)) (2 * real n, 0)"
    using Suc.IH by simp_all
  have "datablockAutomaticOffset (stateOf (pane (relaxIter ctxL [1, 2] ?M)) 2) =
           add2f (datablockAutomaticOffset (stateOf (pane ?M) 2)) (2, 0)"
    using relaxIter_scene [OF p] b assms(2) by simp
  then show ?case
    using p b o by (simp add: placed_relaxIter placedBounds_relaxIter add2f_def algebra_simps)
qed

text \<open>
  C2 on the scene: aircraft 1 is placed by the second pass, the box of aircraft 2 overlaps
  it and stays unplaced. In each of the 20 iterations the step computed for aircraft 2 is
  \<open>(2, 0)\<close> and is added to its automatic offset, which ends 40 units to the right; the
  entry of the slice of bounds that the overlap tests read is never moved.
\<close>

theorem relaxation_leaves_bounds_in_place:
  "placed layoutR = [True, False] \<and>
   Overlaps (placedBounds layoutR ! 1) (placedBounds layoutR ! 0) \<and>
   clampForce (repulsion ctxL layoutR 1 (placedBounds layoutR ! 1)) = (2, 0) \<and>
   placedBounds (relaxIter ctxL [1, 2] layoutR) ! 1 \<noteq> Offset (placedBounds layoutR ! 1) (2, 0) \<and>
   placedBounds (relaxIter ctxL [1, 2] layoutR) = placedBounds layoutR \<and>
   placedBounds (relaxation ctxL [1, 2] layoutR) = placedBounds layoutR \<and>
   datablockAutomaticOffset (stateOf (pane (relaxation ctxL [1, 2] layoutR)) 2) =
     add2f (datablockAutomaticOffset (stateOf (pane layoutR) 2)) (40, 0)"
proof -
  have p: "placed layoutR = [True, False]"
    and b: "placedBounds layoutR =
     [\<lparr>p0 = (95 + 80 / 13, 71 + 192 / 13), p1 = (145 + 80 / 13, 105 + 192 / 13)\<rparr>,
      \<lparr>p0 = (105 + 80 / 13, 71 + 192 / 13), p1 = (155 + 80 / 13, 105 + 192 / 13)\<rparr>]"
    using layoutR_eval by simp_all
  have o: "Overlaps (placedBounds layoutR ! 1) (placedBounds layoutR ! 0)"
    by (simp add: b Overlaps_def)
  have n: "placedBounds (relaxIter ctxL [1, 2] layoutR) ! 1 \<noteq> Offset (placedBounds layoutR ! 1) (2, 0)"
    by (simp add: placedBounds_relaxIter b Offset_def add2f_def)
  have s: "datablockAutomaticOffset (stateOf (pane (relaxation ctxL [1, 2] layoutR)) 2) =
     add2f (datablockAutomaticOffset (stateOf (pane layoutR) 2)) (40, 0)"
    using relaxation_scene_steps [OF p b, of 20] by (simp add: relaxation_def)
  show ?thesis
    using p o n s relaxIter_scene [OF p b]
    by (simp add: placedBounds_relaxIter placedBounds_relaxation)
qed

section \<open>Theorems: duplicating a pane\<close>

lemma dupAircraftInv_step:
  assumes wf: "\<forall>ac sp. aircraftRefs rs ac = Some sp \<longrightarrow> sp < length (scopeStates h)"
    and inv: "dupAircraftInv h rs xs hm"
  shows "dupAircraftInv h rs (xs @ [x]) (dupAircraftStep rs x hm)"
proof (cases "aircraftRefs rs x")
  case None
  then show ?thesis
    using inv by (auto simp: dupAircraftInv_def dupAircraftStep_def Let_def)
next
  case (Some sp)
  obtain ys where ys: "scopeStates (fst hm) = scopeStates h @ ys"
    using inv by (auto simp: dupAircraftInv_def)
  have sp: "sp < length (scopeStates h)"
    using wf Some by simp
  have rd: "scopeStates (fst hm) ! sp = scopeStates h ! sp"
    using sp by (simp add: ys nth_append)
  have step: "dupAircraftStep rs x hm =
      ((fst hm)\<lparr>scopeStates := scopeStates (fst hm) @ [dupScopeState (scopeStates h ! sp)]\<rparr>,
       (snd hm)(x \<mapsto> length (scopeStates (fst hm))))"
    using Some rd by (simp add: dupAircraftStep_def Let_def)
  have len: "length (scopeStates h) \<le> length (scopeStates (fst hm))"
    by (simp add: ys)
  have old: "snd hm ac = Some q \<Longrightarrow>
      length (scopeStates h) \<le> q \<and> q < length (scopeStates (fst hm)) \<and>
      (\<exists>sp. aircraftRefs rs ac = Some sp \<and> scopeStates (fst hm) ! q = dupScopeState (scopeStates h ! sp))" for ac q
    using inv unfolding dupAircraftInv_def by blast
  have none: "snd hm ac = None \<longleftrightarrow> \<not> (ac \<in> set xs \<and> aircraftRefs rs ac \<noteq> None)" for ac
    using inv unfolding dupAircraftInv_def by blast
  have other: "aircraftObjs (fst hm) = aircraftObjs h"
    using inv unfolding dupAircraftInv_def by blast
  let ?hm' = "((fst hm)\<lparr>scopeStates := scopeStates (fst hm) @ [dupScopeState (scopeStates h ! sp)]\<rparr>,
               (snd hm)(x \<mapsto> length (scopeStates (fst hm))))"
  have c1: "aircraftObjs (fst ?hm') = aircraftObjs h"
    using other by simp
  have c2: "\<exists>zs. scopeStates (fst ?hm') = scopeStates h @ zs"
    using ys by simp
  have c3: "\<forall>ac. snd ?hm' ac = None \<longleftrightarrow> \<not> (ac \<in> set (xs @ [x]) \<and> aircraftRefs rs ac \<noteq> None)"
    using none Some by auto
  have c4: "\<forall>ac q. snd ?hm' ac = Some q \<longrightarrow>
          length (scopeStates h) \<le> q \<and> q < length (scopeStates (fst ?hm')) \<and>
          (\<exists>sp. aircraftRefs rs ac = Some sp \<and> scopeStates (fst ?hm') ! q = dupScopeState (scopeStates h ! sp))"
  proof (intro allI impI)
    fix ac q
    assume q: "snd ?hm' ac = Some q"
    show "length (scopeStates h) \<le> q \<and> q < length (scopeStates (fst ?hm')) \<and>
          (\<exists>sp. aircraftRefs rs ac = Some sp \<and> scopeStates (fst ?hm') ! q = dupScopeState (scopeStates h ! sp))"
    proof (cases "ac = x")
      case True
      then have "q = length (scopeStates (fst hm))" using q by simp
      then show ?thesis using True Some len by simp
    next
      case False
      then have "snd hm ac = Some q" using q by simp
      from old [OF this] show ?thesis by (auto simp: nth_append)
    qed
  qed
  show ?thesis
    unfolding step dupAircraftInv_def using c1 c2 c3 c4 by blast
qed

lemma dupAircraftInv_fold:
  assumes "\<forall>ac sp. aircraftRefs rs ac = Some sp \<longrightarrow> sp < length (scopeStates h)"
  shows "dupAircraftInv h rs xs (fold (dupAircraftStep rs) xs (h, Map.empty))"
proof (induction xs rule: rev_induct)
  case Nil
  show ?case by (simp add: dupAircraftInv_def)
next
  case (snoc x xs)
  then show ?case
    using dupAircraftInv_step [OF assms] by simp
qed

lemma dupGhostInv_step:
  assumes wf: "\<forall>ac gh. ghostRefs rs ac = Some gh \<longrightarrow> gh < length (aircraftObjs h)"
    and inv: "dupGhostInv h rs xs hm"
  shows "dupGhostInv h rs (xs @ [x]) (dupGhostStep rs x hm)"
proof (cases "ghostRefs rs x")
  case None
  then show ?thesis
    using inv by (auto simp: dupGhostInv_def dupGhostStep_def Let_def)
next
  case (Some gh)
  obtain ys where ys: "aircraftObjs (fst hm) = aircraftObjs h @ ys"
    using inv by (auto simp: dupGhostInv_def)
  have gh: "gh < length (aircraftObjs h)"
    using wf Some by simp
  have rd: "aircraftObjs (fst hm) ! gh = aircraftObjs h ! gh"
    using gh by (simp add: ys nth_append)
  have step: "dupGhostStep rs x hm =
      ((fst hm)\<lparr>aircraftObjs := aircraftObjs (fst hm) @ [aircraftObjs h ! gh]\<rparr>,
       (snd hm)(x \<mapsto> length (aircraftObjs (fst hm))))"
    using Some rd by (simp add: dupGhostStep_def Let_def)
  have len: "length (aircraftObjs h) \<le> length (aircraftObjs (fst hm))"
    by (simp add: ys)
  have old: "snd hm ac = Some q \<Longrightarrow>
      length (aircraftObjs h) \<le> q \<and> q < length (aircraftObjs (fst hm)) \<and>
      (\<exists>sp. ghostRefs rs ac = Some sp \<and> aircraftObjs (fst hm) ! q = aircraftObjs h ! sp)" for ac q
    using inv unfolding dupGhostInv_def by blast
  have none: "snd hm ac = None \<longleftrightarrow> \<not> (ac \<in> set xs \<and> ghostRefs rs ac \<noteq> None)" for ac
    using inv unfolding dupGhostInv_def by blast
  have other: "scopeStates (fst hm) = scopeStates h"
    using inv unfolding dupGhostInv_def by blast
  let ?hm' = "((fst hm)\<lparr>aircraftObjs := aircraftObjs (fst hm) @ [aircraftObjs h ! gh]\<rparr>,
               (snd hm)(x \<mapsto> length (aircraftObjs (fst hm))))"
  have c1: "scopeStates (fst ?hm') = scopeStates h"
    using other by simp
  have c2: "\<exists>zs. aircraftObjs (fst ?hm') = aircraftObjs h @ zs"
    using ys by simp
  have c3: "\<forall>ac. snd ?hm' ac = None \<longleftrightarrow> \<not> (ac \<in> set (xs @ [x]) \<and> ghostRefs rs ac \<noteq> None)"
    using none Some by auto
  have c4: "\<forall>ac q. snd ?hm' ac = Some q \<longrightarrow>
          length (aircraftObjs h) \<le> q \<and> q < length (aircraftObjs (fst ?hm')) \<and>
          (\<exists>sp. ghostRefs rs ac = Some sp \<and> aircraftObjs (fst ?hm') ! q = aircraftObjs h ! sp)"
  proof (intro allI impI)
    fix ac q
    assume q: "snd ?hm' ac = Some q"
    show "length (aircraftObjs h) \<le> q \<and> q < length (aircraftObjs (fst ?hm')) \<and>
          (\<exists>sp. ghostRefs rs ac = Some sp \<and> aircraftObjs (fst ?hm') ! q = aircraftObjs h ! sp)"
    proof (cases "ac = x")
      case True
      then have "q = length (aircraftObjs (fst hm))" using q by simp
      then show ?thesis using True Some len by simp
    next
      case False
      then have "snd hm ac = Some q" using q by simp
      from old [OF this] show ?thesis by (auto simp: nth_append)
    qed
  qed
  show ?thesis
    unfolding step dupGhostInv_def using c1 c2 c3 c4 by blast
qed

lemma dupGhostInv_fold:
  assumes "\<forall>ac gh. ghostRefs rs ac = Some gh \<longrightarrow> gh < length (aircraftObjs h)"
    and "dupGhostInv h rs [] (h1, Map.empty)"
  shows "dupGhostInv h rs xs (fold (dupGhostStep rs) xs (h1, Map.empty))"
proof (induction xs rule: rev_induct)
  case Nil
  show ?case by (simp add: assms(2))
next
  case (snoc x xs)
  then show ?case
    using dupGhostInv_step [OF assms(1)] by simp
qed

lemma dupGhostInv_start: "dupGhostInv h1 rs [] (h1, Map.empty)"
  by (simp add: dupGhostInv_def)

lemma Duplicate_invariants:
  assumes wf1: "\<forall>ac sp. aircraftRefs rs ac = Some sp \<longrightarrow> sp < length (scopeStates h)"
    and wf2: "\<forall>ac gh. ghostRefs rs ac = Some gh \<longrightarrow> gh < length (aircraftObjs h)"
  shows "\<exists>h1. dupAircraftInv h rs keys (h1, aircraftRefs (snd (Duplicate h rs keys gkeys))) \<and>
              dupGhostInv h1 rs gkeys (fst (Duplicate h rs keys gkeys),
                                        ghostRefs (snd (Duplicate h rs keys gkeys)))"
proof -
  obtain h1 m where f1: "fold (dupAircraftStep rs) keys (h, Map.empty) = (h1, m)"
    by (cases "fold (dupAircraftStep rs) keys (h, Map.empty)")
  obtain h2 g where f2: "fold (dupGhostStep rs) gkeys (h1, Map.empty) = (h2, g)"
    by (cases "fold (dupGhostStep rs) gkeys (h1, Map.empty)")
  have i1: "dupAircraftInv h rs keys (h1, m)"
    using dupAircraftInv_fold [OF wf1, of keys] by (simp add: f1)
  then have "aircraftObjs h1 = aircraftObjs h"
    by (simp add: dupAircraftInv_def)
  then have wf2': "\<forall>ac gh. ghostRefs rs ac = Some gh \<longrightarrow> gh < length (aircraftObjs h1)"
    using wf2 by simp
  have i2: "dupGhostInv h1 rs gkeys (h2, g)"
    using dupGhostInv_fold [OF wf2' dupGhostInv_start, of gkeys] by (simp add: f2)
  have "Duplicate h rs keys gkeys = (h2, \<lparr>aircraftRefs = m, ghostRefs = g\<rparr>)"
    by (simp add: Duplicate_def f1 f2)
  then show ?thesis
    using i1 i2 by auto
qed

text \<open>
  C9, as the code has it. The duplicate gets, for every tracked aircraft, a scope state at a
  newly allocated address (no address of the original's store, whose states keep their
  content), which carries the ghost flag and the cached text of the original's state and is
  otherwise the zero state: both offsets zero, bounds zero, text not current. For every
  ghost link of the original the duplicate links the same aircraft to a newly allocated copy
  of the ghost aircraft, not to the original's. Aircraft without state or without ghost link
  in the original have none in the duplicate.
\<close>

theorem duplicate_copies_flag_and_text:
  assumes "\<forall>ac sp. aircraftRefs rs ac = Some sp \<longrightarrow> sp < length (scopeStates h)"
    and "\<forall>ac gh. ghostRefs rs ac = Some gh \<longrightarrow> gh < length (aircraftObjs h)"
    and "set keys = dom (aircraftRefs rs)" and "set gkeys = dom (ghostRefs rs)"
  shows "(\<forall>ac sp. aircraftRefs rs ac = Some sp \<longrightarrow>
            (\<exists>sp'. aircraftRefs (snd (Duplicate h rs keys gkeys)) ac = Some sp' \<and>
                   length (scopeStates h) \<le> sp' \<and>
                   sp' < length (scopeStates (fst (Duplicate h rs keys gkeys))) \<and>
                   scopeStates (fst (Duplicate h rs keys gkeys)) ! sp' =
                     \<lparr>isGhost = isGhost (scopeStates h ! sp), datablockAutomaticOffset = (0, 0),
                      datablockManualOffset = (0, 0),
                      datablockText = datablockText (scopeStates h ! sp),
                      datablockTextCurrent = False,
                      datablockBounds = \<lparr>p0 = (0, 0), p1 = (0, 0)\<rparr>\<rparr>)) \<and>
         (\<forall>ac. aircraftRefs rs ac = None \<longrightarrow> aircraftRefs (snd (Duplicate h rs keys gkeys)) ac = None) \<and>
         ran (aircraftRefs (snd (Duplicate h rs keys gkeys))) \<inter> ran (aircraftRefs rs) = {} \<and>
         (\<forall>a<length (scopeStates h). scopeStates (fst (Duplicate h rs keys gkeys)) ! a = scopeStates h ! a) \<and>
         (\<forall>ac gh. ghostRefs rs ac = Some gh \<longrightarrow>
            (\<exists>g'. ghostRefs (snd (Duplicate h rs keys gkeys)) ac = Some g' \<and>
                  length (aircraftObjs h) \<le> g' \<and>
                  g' < length (aircraftObjs (fst (Duplicate h rs keys gkeys))) \<and>
                  aircraftObjs (fst (Duplicate h rs keys gkeys)) ! g' = aircraftObjs h ! gh)) \<and>
         (\<forall>ac. ghostRefs rs ac = None \<longrightarrow> ghostRefs (snd (Duplicate h rs keys gkeys)) ac = None) \<and>
         ran (ghostRefs (snd (Duplicate h rs keys gkeys))) \<inter> ran (ghostRefs rs) = {}"
proof -
  let ?D = "Duplicate h rs keys gkeys"
  obtain h1 where i1: "dupAircraftInv h rs keys (h1, aircraftRefs (snd ?D))"
    and i2: "dupGhostInv h1 rs gkeys (fst ?D, ghostRefs (snd ?D))"
    using Duplicate_invariants [OF assms(1,2)] by blast
  have s: "scopeStates (fst ?D) = scopeStates h1" and o: "aircraftObjs h1 = aircraftObjs h"
    using i1 i2 by (simp_all add: dupAircraftInv_def dupGhostInv_def)
  obtain ys where ys: "scopeStates h1 = scopeStates h @ ys"
    using i1 by (auto simp: dupAircraftInv_def)
  have a_some: "aircraftRefs (snd ?D) ac = Some q \<Longrightarrow>
      length (scopeStates h) \<le> q \<and> q < length (scopeStates (fst ?D)) \<and>
      (\<exists>sp. aircraftRefs rs ac = Some sp \<and>
            scopeStates (fst ?D) ! q = dupScopeState (scopeStates h ! sp))" for ac q
    using i1 unfolding dupAircraftInv_def s by simp
  have a_none: "aircraftRefs (snd ?D) ac = None \<longleftrightarrow> aircraftRefs rs ac = None" for ac
    using i1 assms(3) unfolding dupAircraftInv_def by (auto simp: dom_def)
  have g_some: "ghostRefs (snd ?D) ac = Some q \<Longrightarrow>
      length (aircraftObjs h) \<le> q \<and> q < length (aircraftObjs (fst ?D)) \<and>
      (\<exists>gh. ghostRefs rs ac = Some gh \<and> aircraftObjs (fst ?D) ! q = aircraftObjs h ! gh)" for ac q
    using i2 unfolding dupGhostInv_def o by simp
  have g_none: "ghostRefs (snd ?D) ac = None \<longleftrightarrow> ghostRefs rs ac = None" for ac
    using i2 assms(4) unfolding dupGhostInv_def by (auto simp: dom_def)
  have d: "dupScopeState t = \<lparr>isGhost = isGhost t, datablockAutomaticOffset = (0, 0),
                      datablockManualOffset = (0, 0), datablockText = datablockText t,
                      datablockTextCurrent = False,
                      datablockBounds = \<lparr>p0 = (0, 0), p1 = (0, 0)\<rparr>\<rparr>" for t
    by (simp add: dupScopeState_def zeroScopeState_def)
  have 1: "\<forall>ac sp. aircraftRefs rs ac = Some sp \<longrightarrow>
            (\<exists>sp'. aircraftRefs (snd ?D) ac = Some sp' \<and> length (scopeStates h) \<le> sp' \<and>
                   sp' < length (scopeStates (fst ?D)) \<and>
                   scopeStates (fst ?D) ! sp' = dupScopeState (scopeStates h ! sp))"
  proof (intro allI impI)
    fix ac sp assume r: "aircraftRefs rs ac = Some sp"
    then obtain q where q: "aircraftRefs (snd ?D) ac = Some q"
      using a_none [of ac] by (cases "aircraftRefs (snd ?D) ac") auto
    from a_some [OF q] r q
    show "\<exists>sp'. aircraftRefs (snd ?D) ac = Some sp' \<and> length (scopeStates h) \<le> sp' \<and>
                   sp' < length (scopeStates (fst ?D)) \<and>
                   scopeStates (fst ?D) ! sp' = dupScopeState (scopeStates h ! sp)"
      by auto
  qed
  have 2: "\<forall>ac. aircraftRefs rs ac = None \<longrightarrow> aircraftRefs (snd ?D) ac = None"
    using a_none by simp
  have 3: "ran (aircraftRefs (snd ?D)) \<inter> ran (aircraftRefs rs) = {}"
    using a_some assms(1) by (fastforce simp: ran_def)
  have 4: "\<forall>a<length (scopeStates h). scopeStates (fst ?D) ! a = scopeStates h ! a"
    by (simp add: s ys nth_append)
  have 5: "\<forall>ac gh. ghostRefs rs ac = Some gh \<longrightarrow>
            (\<exists>g'. ghostRefs (snd ?D) ac = Some g' \<and> length (aircraftObjs h) \<le> g' \<and>
                  g' < length (aircraftObjs (fst ?D)) \<and>
                  aircraftObjs (fst ?D) ! g' = aircraftObjs h ! gh)"
  proof (intro allI impI)
    fix ac gh assume r: "ghostRefs rs ac = Some gh"
    then obtain q where q: "ghostRefs (snd ?D) ac = Some q"
      using g_none [of ac] by (cases "ghostRefs (snd ?D) ac") auto
    from g_some [OF q] r q
    show "\<exists>g'. ghostRefs (snd ?D) ac = Some g' \<and> length (aircraftObjs h) \<le> g' \<and>
                  g' < length (aircraftObjs (fst ?D)) \<and>
                  aircraftObjs (fst ?D) ! g' = aircraftObjs h ! gh"
      by auto
  qed
  have 6: "\<forall>ac. ghostRefs rs ac = None \<longrightarrow> ghostRefs (snd ?D) ac = None"
    using g_none by simp
  have 7: "ran (ghostRefs (snd ?D)) \<inter> ran (ghostRefs rs) = {}"
    using g_some assms(2) by (fastforce simp: ran_def)
  show ?thesis
    using 1 2 3 4 5 6 7 unfolding d by blast
qed

lemma Duplicate_scene:
  "Duplicate heap0 refs0 [0, 1] [0] =
     (\<lparr>scopeStates = [state1, zeroScopeState\<lparr>isGhost := True\<rparr>, dupScopeState state1,
                      dupScopeState (zeroScopeState\<lparr>isGhost := True\<rparr>)],
       aircraftObjs = [plane0, plane0\<lparr>Position := (1, 1)\<rparr>, plane0\<lparr>Position := (1, 1)\<rparr>]\<rparr>,
      \<lparr>aircraftRefs = [0 \<mapsto> 2, 1 \<mapsto> 3], ghostRefs = [0 \<mapsto> 2]\<rparr>)"
  by (simp add: Duplicate_def dupAircraftStep_def dupGhostStep_def heap0_def refs0_def Let_def
      numeral_2_eq_2 numeral_3_eq_3)

theorem duplicate_copies_flag_and_text_witness:
  "set [0 :: acid, 1] = dom (aircraftRefs refs0) \<and> set [0 :: acid] = dom (ghostRefs refs0) \<and>
   ran (aircraftRefs (snd (Duplicate heap0 refs0 [0, 1] [0]))) \<inter> ran (aircraftRefs refs0) = {} \<and>
   (\<exists>sp'. aircraftRefs (snd (Duplicate heap0 refs0 [0, 1] [0])) 0 = Some sp' \<and> 2 \<le> sp' \<and>
      scopeStates (fst (Duplicate heap0 refs0 [0, 1] [0])) ! sp' =
        \<lparr>isGhost = False, datablockAutomaticOffset = (0, 0), datablockManualOffset = (0, 0),
         datablockText = (''AAL1 050'', ''AAL1 B738''), datablockTextCurrent = False,
         datablockBounds = \<lparr>p0 = (0, 0), p1 = (0, 0)\<rparr>\<rparr>) \<and>
   (\<exists>g'. ghostRefs (snd (Duplicate heap0 refs0 [0, 1] [0])) 0 = Some g' \<and> 2 \<le> g' \<and>
      aircraftObjs (fst (Duplicate heap0 refs0 [0, 1] [0])) ! g' = plane0\<lparr>Position := (1, 1)\<rparr>)"
proof -
  let ?D = "Duplicate heap0 refs0 [0, 1] [0]"
  have wf1: "\<forall>ac sp. aircraftRefs refs0 ac = Some sp \<longrightarrow> sp < length (scopeStates heap0)"
    by (simp add: refs0_def heap0_def)
  have wf2: "\<forall>ac gh. ghostRefs refs0 ac = Some gh \<longrightarrow> gh < length (aircraftObjs heap0)"
    by (simp add: refs0_def heap0_def)
  have k: "set [0 :: acid, 1] = dom (aircraftRefs refs0)"
    and g: "set [0 :: acid] = dom (ghostRefs refs0)"
    by (auto simp: refs0_def)
  note T = duplicate_copies_flag_and_text [OF wf1 wf2 k g]
  have r1: "aircraftRefs refs0 0 = Some 0" and r2: "ghostRefs refs0 0 = Some 1"
    by (simp_all add: refs0_def)
  have c1: "isGhost (scopeStates heap0 ! 0) = False"
    and c2: "datablockText (scopeStates heap0 ! 0) = (''AAL1 050'', ''AAL1 B738'')"
    and c3: "aircraftObjs heap0 ! 1 = plane0\<lparr>Position := (1, 1)\<rparr>"
    and c4: "length (scopeStates heap0) = 2" and c5: "length (aircraftObjs heap0) = 2"
    by (simp_all add: heap0_def state1_def)
  have a: "\<exists>sp'. aircraftRefs (snd ?D) 0 = Some sp' \<and> 2 \<le> sp' \<and>
      scopeStates (fst ?D) ! sp' =
        \<lparr>isGhost = False, datablockAutomaticOffset = (0, 0), datablockManualOffset = (0, 0),
         datablockText = (''AAL1 050'', ''AAL1 B738''), datablockTextCurrent = False,
         datablockBounds = \<lparr>p0 = (0, 0), p1 = (0, 0)\<rparr>\<rparr>"
    using T [THEN conjunct1, rule_format, OF r1] unfolding c1 c2 c4 by blast
  have b: "\<exists>g'. ghostRefs (snd ?D) 0 = Some g' \<and> 2 \<le> g' \<and>
      aircraftObjs (fst ?D) ! g' = plane0\<lparr>Position := (1, 1)\<rparr>"
    using T [THEN conjunct2, THEN conjunct2, THEN conjunct2, THEN conjunct2, THEN conjunct1,
             rule_format, OF r2]
    unfolding c3 c5 by blast
  have d: "ran (aircraftRefs (snd ?D)) \<inter> ran (aircraftRefs refs0) = {}"
    using T by blast
  show ?thesis
    using k g d a b by blast
qed

text \<open>
  C9 as stated fails. The state of aircraft 0 in the duplicate is not equal in content to
  the original's: its manual offset is zero, the original's is \<open>(10, 10)\<close>, and its bounds
  and automatic offset are zero too. The ghost link of aircraft 0 in the duplicate points
  to the new copy of the ghost aircraft, at address 2, which has no scope state in the
  duplicate; the scope state of the ghost is kept under the original ghost, aircraft 1.
\<close>

theorem duplicate_drops_offsets_counterexample:
  "aircraftRefs (snd (Duplicate heap0 refs0 [0, 1] [0])) 0 = Some 2 \<and>
   scopeStates (fst (Duplicate heap0 refs0 [0, 1] [0])) ! 2 \<noteq> scopeStates heap0 ! 0 \<and>
   datablockManualOffset (scopeStates heap0 ! 0) = (10, 10) \<and>
   datablockManualOffset (scopeStates (fst (Duplicate heap0 refs0 [0, 1] [0])) ! 2) = (0, 0) \<and>
   datablockBounds (scopeStates heap0 ! 0) \<noteq>
     datablockBounds (scopeStates (fst (Duplicate heap0 refs0 [0, 1] [0])) ! 2) \<and>
   ghostRefs (snd (Duplicate heap0 refs0 [0, 1] [0])) 0 = Some 2 \<and>
   aircraftRefs (snd (Duplicate heap0 refs0 [0, 1] [0])) 2 = None \<and>
   aircraftRefs (snd (Duplicate heap0 refs0 [0, 1] [0])) 1 = Some 3 \<and>
   isGhost (scopeStates (fst (Duplicate heap0 refs0 [0, 1] [0])) ! 3)"
  unfolding Duplicate_scene
  by (simp add: heap0_def state1_def dupScopeState_def zeroScopeState_def)

end
